theory Spec2Isabelle
  imports Main "HOL-Library.Sublist"
begin

section \<open>The secure web gateway proxy (week2-secure-web-gateway/proxy/main.go)\<close>

text \<open>
  A shallow embedding of the proxy's blocklist store, its policy fetcher, its domain
  matcher and its request dispatcher. Go strings are byte sequences and are modelled as
  \<^typ>\<open>string\<close>; a rune is a natural number. The read/write mutex around the blocklist
  is not modelled: every function below is one critical section of the program run on
  its own. Log output is left out.
\<close>

subsection \<open>Library functions of packages \<open>utf8\<close>, \<open>unicode\<close>, \<open>strings\<close> and \<open>fmt\<close>\<close>

text \<open>
  \<open>utf8.DecodeRuneInString\<close>: the first rune of a string and the number of bytes it
  takes. A first byte below 128 is the rune itself. The first bytes \<open>C2\<close> to \<open>DF\<close> start
  a rune of two bytes, \<open>E0\<close> to \<open>EF\<close> one of three and \<open>F0\<close> to \<open>F4\<close> one of four; the
  second byte must lie in the range the first byte accepts (which keeps out encodings
  that are longer than needed, the surrogates and the runes above \<open>10FFFF\<close>) and the
  later ones between \<open>80\<close> and \<open>BF\<close>. Anything else, a string cut short included, is
  \<open>RuneError\<close> of width one.
\<close>

definition RuneError :: nat where
  "RuneError = 0xFFFD"

definition accept_lo :: "nat \<Rightarrow> nat" where
  "accept_lo s0 = (if s0 = 0xE0 then 0xA0 else if s0 = 0xF0 then 0x90 else 0x80)"

definition accept_hi :: "nat \<Rightarrow> nat" where
  "accept_hi s0 = (if s0 = 0xED then 0x9F else if s0 = 0xF4 then 0x8F else 0xBF)"

definition continuation :: "nat \<Rightarrow> bool" where
  "continuation b = (0x80 \<le> b \<and> b \<le> 0xBF)"

definition DecodeRuneInString :: "string \<Rightarrow> nat \<times> nat" where
  "DecodeRuneInString s =
     (case map of_char s of
        [] \<Rightarrow> (RuneError, 0)
      | s0 # t \<Rightarrow>
          if s0 < 0x80 then (s0, 1)
          else if s0 < 0xC2 \<or> 0xF4 < s0 then (RuneError, 1)
          else if s0 < 0xE0 then
            (case t of
               s1 # t1 \<Rightarrow>
                 if accept_lo s0 \<le> s1 \<and> s1 \<le> accept_hi s0
                 then ((s0 - 0xC0) * 64 + (s1 - 0x80), 2)
                 else (RuneError, 1)
             | [] \<Rightarrow> (RuneError, 1))
          else if s0 < 0xF0 then
            (case t of
               s1 # s2 # t2 \<Rightarrow>
                 if accept_lo s0 \<le> s1 \<and> s1 \<le> accept_hi s0 \<and> continuation s2
                 then ((s0 - 0xE0) * 4096 + (s1 - 0x80) * 64 + (s2 - 0x80), 3)
                 else (RuneError, 1)
             | _ \<Rightarrow> (RuneError, 1))
          else
            (case t of
               s1 # s2 # s3 # t3 \<Rightarrow>
                 if accept_lo s0 \<le> s1 \<and> s1 \<le> accept_hi s0 \<and> continuation s2 \<and> continuation s3
                 then ((s0 - 0xF0) * 262144 + (s1 - 0x80) * 4096 + (s2 - 0x80) * 64 + (s3 - 0x80), 4)
                 else (RuneError, 1)
             | _ \<Rightarrow> (RuneError, 1)))"

text \<open>
  The runes of a string as \<open>for _, c := range s\<close> reads them: decode the first rune, step
  over its bytes, go on.
\<close>

fun runes :: "string \<Rightarrow> nat list" where
  "runes [] = []"
| "runes (c # cs) =
     (case DecodeRuneInString (c # cs) of
        (r, width) \<Rightarrow> r # runes (drop (width - 1) cs))"

text \<open>
  \<open>utf8.EncodeRune\<close>, as \<open>strings.Builder.WriteRune\<close> uses it: one to four bytes; a
  surrogate or a rune above \<open>10FFFF\<close> is written as \<open>RuneError\<close>.
\<close>

definition encode3 :: "nat \<Rightarrow> string" where
  "encode3 r = map char_of [0xE0 + r div 4096, 0x80 + (r div 64) mod 64, 0x80 + r mod 64]"

definition EncodeRune :: "nat \<Rightarrow> string" where
  "EncodeRune r =
     (if r < 0x80 then [char_of r]
      else if r < 0x800 then map char_of [0xC0 + r div 64, 0x80 + r mod 64]
      else if 0x10FFFF < r \<or> (0xD800 \<le> r \<and> r \<le> 0xDFFF) then encode3 RuneError
      else if r < 0x10000 then encode3 r
      else map char_of [0xF0 + r div 262144, 0x80 + (r div 4096) mod 64,
                        0x80 + (r div 64) mod 64, 0x80 + r mod 64])"

text \<open>
  \<open>strings.Map(mapping, s)\<close> for a mapping that drops no rune: every rune of \<open>s\<close> is
  mapped and written back in UTF-8, so a byte that is not valid UTF-8 comes out as the
  three bytes of what \<open>RuneError\<close> is mapped to. (Go copies a valid rune that is mapped
  to itself as it stands; a valid rune has one encoding only, so that is the same as
  writing it back.)
\<close>

definition strings_Map :: "(nat \<Rightarrow> nat) \<Rightarrow> string \<Rightarrow> string" where
  "strings_Map mapping s = concat (map (\<lambda>c. EncodeRune (mapping c)) (runes s))"

text \<open>
  \<open>unicode.ToLower\<close>: a rune up to 127 is lowered when it is one of \<open>A\<close> to \<open>Z\<close>; any
  other rune is looked up in the table \<open>unicode.CaseRanges\<close>. That table is part of Go's
  library and not of this program: it is the parameter \<open>CaseRanges\<close> of the functions
  below, \<open>CaseRanges r\<close> being the lower case the table gives for the rune \<open>r\<close> above 127.
\<close>

definition unicode_ToLower :: "(nat \<Rightarrow> nat) \<Rightarrow> nat \<Rightarrow> nat" where
  "unicode_ToLower CaseRanges r =
     (if r \<le> 0x7F then (if 65 \<le> r \<and> r \<le> 90 then r + 32 else r)
      else CaseRanges r)"

text \<open>
  \<open>strings.ToLower\<close>: a string of bytes below 128 takes the fast path, on which the
  bytes \<open>A\<close> to \<open>Z\<close> are lowered and every other byte stays; any other string is
  \<open>strings.Map(unicode.ToLower, s)\<close>.
\<close>

definition lower_byte :: "char \<Rightarrow> char" where
  "lower_byte c =
     (if 65 \<le> (of_char c :: nat) \<and> (of_char c :: nat) \<le> 90
      then char_of ((of_char c :: nat) + 32) else c)"

definition ToLower :: "(nat \<Rightarrow> nat) \<Rightarrow> string \<Rightarrow> string" where
  "ToLower CaseRanges s =
     (if list_all (\<lambda>c. (of_char c :: nat) < 0x80) s then map lower_byte s
      else strings_Map (unicode_ToLower CaseRanges) s)"

text \<open>
  \<open>strings.Split(s, sep)\<close> for a separator of one byte, which is how both call sites use
  it: the pieces of \<open>s\<close> between the occurrences of \<open>sep\<close>, one more piece than there are
  occurrences (so the result of splitting the empty string is the one empty piece).
  A byte that is not the separator joins the first piece of the rest; the rest always
  has a first piece (\<open>Split_not_Nil\<close>), so the \<open>[]\<close> branch below is never taken.
\<close>

fun Split :: "string \<Rightarrow> char \<Rightarrow> string list" where
  "Split [] sep = [[]]"
| "Split (c # cs) sep =
     (if c = sep then [] # Split cs sep
      else (case Split cs sep of
              [] \<Rightarrow> [[c]]
            | p # ps \<Rightarrow> (c # p) # ps))"

text \<open>\<open>strings.Join(elems, sep)\<close>: the elements with \<open>sep\<close> between neighbours.\<close>

fun Join :: "string list \<Rightarrow> string \<Rightarrow> string" where
  "Join [] sep = []"
| "Join [x] sep = x"
| "Join (x # y # ys) sep = x @ sep @ Join (y # ys) sep"

text \<open>
  \<open>fmt.Sprintf\<close> with string operands, for the two verbs the program's format string
  uses: \<open>%%\<close> writes a percent sign and \<open>%s\<close> writes the next operand as it is. A \<open>%s\<close>
  with no operand left, a \<open>%\<close> that ends the format and operands left over at the end
  are rendered as Go renders them. Other verbs do not occur in the program; they are
  outside this fragment and are copied as they stand.
\<close>

definition extra_operands :: "string list \<Rightarrow> string" where
  "extra_operands args =
     (if args = [] then []
      else ''%!(EXTRA '' @ Join (map (\<lambda>a. ''string='' @ a) args) '', '' @ '')'')"

fun Sprintf :: "string \<Rightarrow> string list \<Rightarrow> string" where
  "Sprintf [] args = extra_operands args"
| "Sprintf (c # fmt) args =
     (if c \<noteq> CHR ''%'' then c # Sprintf fmt args
      else (case fmt of
              [] \<Rightarrow> ''%!(NOVERB)'' @ extra_operands args
            | v # fmt' \<Rightarrow>
                if v = CHR ''%'' then CHR ''%'' # Sprintf fmt' args
                else if v = CHR ''s'' then
                  (case args of
                     [] \<Rightarrow> ''%!s(MISSING)'' @ Sprintf fmt' []
                   | a # args' \<Rightarrow> a @ Sprintf fmt' args')
                else c # v # Sprintf fmt' args))"

text \<open>
  A format without operands: its only verb is \<open>%%\<close>. \<open>Sprintf\<close> consumes no operand
  on such a format.
\<close>

fun no_operand_verbs :: "string \<Rightarrow> bool" where
  "no_operand_verbs [] = True"
| "no_operand_verbs (c # fmt) =
     (if c \<noteq> CHR ''%'' then no_operand_verbs fmt
      else (case fmt of
              [] \<Rightarrow> False
            | v # fmt' \<Rightarrow> v = CHR ''%'' \<and> no_operand_verbs fmt'))"

subsection \<open>The proxy server and its blocklist\<close>

text \<open>
  \<open>ProxyServer\<close>: the blocklist is a Go \<open>map[string]bool\<close>; reading a key that is absent
  yields \<open>false\<close>.
\<close>

record ProxyServer =
  blocklist :: "string \<rightharpoonup> bool"
  policyURL :: string

definition NewProxyServer :: "string \<Rightarrow> ProxyServer" where
  "NewProxyServer url = \<lparr>blocklist = Map.empty, policyURL = url\<rparr>"

definition lookup :: "(string \<rightharpoonup> bool) \<Rightarrow> string \<Rightarrow> bool" where
  "lookup m k = (case m k of None \<Rightarrow> False | Some b \<Rightarrow> b)"

subsection \<open>The policy fetcher: \<open>UpdateBlocklist\<close> and \<open>StartPeriodicUpdate\<close>\<close>

text \<open>
  A Go call that returns a value and an \<open>error\<close> is a \<open>result\<close>. The network is a
  parameter: \<open>http_Get url\<close> is what \<open>http.Get(url)\<close> returns at the moment of the call,
  and a response carries, next to its status code, what
  \<open>json.NewDecoder(resp.Body).Decode(&policy)\<close> makes of its body.
\<close>

datatype 'a result = Err string | Ok 'a

record PolicyResponse =
  Blocked :: "string list"

record Response =
  StatusCode :: nat
  Body_Decode :: "PolicyResponse result"

datatype error =
  FailedToFetchPolicy string
| PolicyEngineReturnedStatus nat
| FailedToDecodePolicy string

text \<open>
  The loop of \<open>UpdateBlocklist\<close> over \<open>policy.Blocked\<close>:
  \<open>ps.blocklist[strings.ToLower(domain)] = true\<close>.
\<close>

fun rebuild ::
    "(nat \<Rightarrow> nat) \<Rightarrow> (string \<rightharpoonup> bool) \<Rightarrow> string list \<Rightarrow> (string \<rightharpoonup> bool)" where
  "rebuild CaseRanges m [] = m"
| "rebuild CaseRanges m (domain # rest) =
     rebuild CaseRanges (m(ToLower CaseRanges domain \<mapsto> True)) rest"

definition StatusOK :: nat where
  "StatusOK = 200"

definition UpdateBlocklist ::
    "(nat \<Rightarrow> nat) \<Rightarrow> ProxyServer \<Rightarrow> (string \<Rightarrow> Response result) \<Rightarrow>
       error option \<times> ProxyServer" where
  "UpdateBlocklist CaseRanges ps http_Get =
     (case http_Get (policyURL ps) of
        Err e \<Rightarrow> (Some (FailedToFetchPolicy e), ps)
      | Ok resp \<Rightarrow>
          if StatusCode resp \<noteq> StatusOK
          then (Some (PolicyEngineReturnedStatus (StatusCode resp)), ps)
          else (case Body_Decode resp of
                  Err e \<Rightarrow> (Some (FailedToDecodePolicy e), ps)
                | Ok policy \<Rightarrow>
                    (None, ps\<lparr>blocklist := rebuild CaseRanges Map.empty (Blocked policy)\<rparr>)))"

text \<open>
  The body of the goroutine of \<open>StartPeriodicUpdate\<close>, run over the ticks of a finite
  prefix of the ticker's channel; each tick comes with the network as it is then. An
  error of \<open>UpdateBlocklist\<close> is logged and the loop goes on to the next tick.
\<close>

fun StartPeriodicUpdate ::
    "(nat \<Rightarrow> nat) \<Rightarrow> ProxyServer \<Rightarrow> (string \<Rightarrow> Response result) list \<Rightarrow> ProxyServer" where
  "StartPeriodicUpdate CaseRanges ps [] = ps"
| "StartPeriodicUpdate CaseRanges ps (http_Get # ticks) =
     (case UpdateBlocklist CaseRanges ps http_Get of
        (Some err, ps') \<Rightarrow> StartPeriodicUpdate CaseRanges ps' ticks
      | (None, ps') \<Rightarrow> StartPeriodicUpdate CaseRanges ps' ticks)"

subsection \<open>The domain matcher: \<open>IsBlocked\<close>\<close>

text \<open>
  The loop \<open>for i := 1; i < len(parts); i++\<close> of \<open>IsBlocked\<close>, from index \<open>i\<close> on: it
  returns true at the first parent domain \<open>strings.Join(parts[i:], ".")\<close> found in the
  blocklist and false when the index runs past the last label.
\<close>

function parent_loop :: "ProxyServer \<Rightarrow> string list \<Rightarrow> nat \<Rightarrow> bool" where
  "parent_loop ps parts i =
     (if i < length parts
      then (if lookup (blocklist ps) (Join (drop i parts) ''.'') then True
            else parent_loop ps parts (Suc i))
      else False)"
  by pat_completeness auto
termination
  by (relation "measure (\<lambda>(ps, parts, i). length parts - i)") auto

text \<open>
  \<open>IsBlocked\<close>: the host is cut at its first colon (\<open>strings.Split(host, ":")[0]\<close>; the
  split of any string has a first piece, see \<open>Split_not_Nil\<close>), lowered, looked up, and
  then every parent domain is looked up.
\<close>

definition IsBlocked :: "(nat \<Rightarrow> nat) \<Rightarrow> ProxyServer \<Rightarrow> string \<Rightarrow> bool" where
  "IsBlocked CaseRanges ps host =
     (let domain = hd (Split host (CHR '':''));
          domain = ToLower CaseRanges domain
      in if lookup (blocklist ps) domain then True
         else parent_loop ps (Split domain (CHR ''.'')) 1)"

subsection \<open>The request dispatcher: \<open>ServeHTTP\<close> and \<open>serveBlockedPage\<close>\<close>

text \<open>
  Of an inbound \<open>*http.Request\<close> the handler reads \<open>r.Host\<close> and \<open>r.URL.Host\<close> (and, for
  its log line, the method and the remote address). What has been written to an
  \<open>http.ResponseWriter\<close> is its header map, its status code (0 before \<open>WriteHeader\<close>) and
  its body.
\<close>

record Request =
  Method :: string
  Host :: string
  URL_Host :: string
  RemoteAddr :: string

record ResponseWriter =
  w_header :: "string \<rightharpoonup> string list"
  w_status :: nat
  w_body :: string

definition StatusForbidden :: nat where
  "StatusForbidden = 403"

text \<open>
  The format string of \<open>serveBlockedPage\<close>, byte for byte as it stands between the
  backquotes of the source file: \<open>page_before\<close> is its text up to the verb \<open>%s\<close>,
  \<open>page_after\<close> its text from there on (the eight bytes above 127 are the icon in the
  \<open>blocked-icon\<close> element). The last line of \<open>page_before\<close> opens the element that
  holds the host.
\<close>

definition page_before :: string where
  \<open>page_before =
    (''<!DOCTYPE html>\<newline>'' @
     ''<html>\<newline>'' @
     ''<head>\<newline>'' @
     ''    <title>Access Denied</title>\<newline>'' @
     ''    <style>\<newline>'' @
     ''        body {\<newline>'' @
     ''            font-family: Arial, sans-serif;\<newline>'' @
     ''            background: linear-gradient(135deg, #667eea 0%%, #764ba2 100%%);\<newline>'' @
     ''            display: flex;\<newline>'' @
     ''            justify-content: center;\<newline>'' @
     ''            align-items: center;\<newline>'' @
     ''            height: 100vh;\<newline>'' @
     ''            margin: 0;\<newline>'' @
     ''        }\<newline>'' @
     ''        .container {\<newline>'' @
     ''            background: white;\<newline>'' @
     ''            padding: 40px;\<newline>'' @
     ''            border-radius: 10px;\<newline>'' @
     ''            box-shadow: 0 10px 40px rgba(0,0,0,0.3);\<newline>'' @
     ''            text-align: center;\<newline>'' @
     ''            max-width: 500px;\<newline>'' @
     ''        }\<newline>'' @
     ''        h1 {\<newline>'' @
     ''            color: #e74c3c;\<newline>'' @
     ''            margin-top: 0;\<newline>'' @
     ''        }\<newline>'' @
     ''        .blocked-icon {\<newline>'' @
     ''            font-size: 72px;\<newline>'' @
     ''            color: #e74c3c;\<newline>'' @
     ''        }\<newline>'' @
     ''        .domain {\<newline>'' @
     ''            background: #f8f9fa;\<newline>'' @
     ''            padding: 10px;\<newline>'' @
     ''            border-radius: 5px;\<newline>'' @
     ''            margin: 20px 0;\<newline>'' @
     ''            font-family: monospace;\<newline>'' @
     ''            word-break: break-all;\<newline>'' @
     ''        }\<newline>'' @
     ''    </style>\<newline>'' @
     ''</head>\<newline>'' @
     ''<body>\<newline>'' @
     ''    <div class="container">\<newline>'' @
     ''        <div class="blocked-icon">'' @ [CHR 0xC3, CHR 0xB0, CHR 0xC5, CHR 0xB8, CHR 0xC5, CHR 0xA1, CHR 0xC2, CHR 0xAB] @ ''</div>\<newline>'' @
     ''        <h1>Access Denied by Cisco Security</h1>\<newline>'' @
     ''        <p>The website you are trying to access has been blocked by your organization's security policy.</p>\<newline>'') @
     ''        <div class="domain">''\<close>

definition page_after :: string where
  \<open>page_after =
     ''</div>\<newline>'' @
     ''        <p><small>If you believe this is an error, please contact your IT administrator.</small></p>\<newline>'' @
     ''    </div>\<newline>'' @
     ''</body>\<newline>'' @
     ''</html>''\<close>

definition page_template :: string where
  "page_template = page_before @ ''%s'' @ page_after"

definition serveBlockedPage :: "ProxyServer \<Rightarrow> ResponseWriter \<Rightarrow> string \<Rightarrow> ResponseWriter" where
  "serveBlockedPage ps w host =
     (let w = w\<lparr>w_header := (w_header w)(''Content-Type'' \<mapsto> [''text/html; charset=utf-8''])\<rparr>;
          w = w\<lparr>w_status := StatusForbidden\<rparr>;
          html = Sprintf page_template [host]
      in w\<lparr>w_body := w_body w @ html\<rparr>)"

text \<open>
  The outcome of handling one request: either the handler has written its own response,
  or it has made the call \<open>ps.forwardRequest(w, r)\<close>. The body of \<open>forwardRequest\<close> (the
  outbound request and the relay of the upstream's answer) is network traffic and is not
  unfolded.
\<close>

datatype handled =
  Responded ResponseWriter
| Call_forwardRequest ResponseWriter Request

definition ServeHTTP ::
    "(nat \<Rightarrow> nat) \<Rightarrow> ProxyServer \<Rightarrow> ResponseWriter \<Rightarrow> Request \<Rightarrow> handled" where
  "ServeHTTP CaseRanges ps w r =
     (let host = Host r;
          host = (if host = [] then URL_Host r else host)
      in if IsBlocked CaseRanges ps host then Responded (serveBlockedPage ps w host)
         else Call_forwardRequest w r)"

subsection \<open>Notions of the specification\<close>

text \<open>
  The host whose fate \<open>ServeHTTP\<close> decides: \<open>r.Host\<close>, or \<open>r.URL.Host\<close> when that is
  empty.
\<close>

definition request_host :: "Request \<Rightarrow> string" where
  "request_host r = (if Host r = [] then URL_Host r else Host r)"

text \<open>
  Steps 1 and 2 of the matcher as it carries them out: keep what stands before the
  first colon, in lower case.
\<close>

definition normalize_host :: "(nat \<Rightarrow> nat) \<Rightarrow> string \<Rightarrow> string" where
  "normalize_host CaseRanges host = ToLower CaseRanges (takeWhile (\<lambda>c. c \<noteq> CHR '':'') host)"

text \<open>
  \<open>label_suffix s d\<close>: \<open>s\<close> is a right-hand label suffix of the domain \<open>d\<close>, that is \<open>d\<close>
  itself or what follows one of the dots of \<open>d\<close>.
\<close>

definition label_suffix :: "string \<Rightarrow> string \<Rightarrow> bool" where
  "label_suffix s d = (s = d \<or> suffix (CHR ''.'' # s) d)"

text \<open>
  A refresh attempt fails when the GET errors, the status is not a success status
  (200 to 299), or the body does not decode.
\<close>

definition refresh_fails :: "Response result \<Rightarrow> bool" where
  "refresh_fails got =
     (case got of
        Err e \<Rightarrow> True
      | Ok resp \<Rightarrow>
          StatusCode resp < 200 \<or> 300 \<le> StatusCode resp \<or>
          (case Body_Decode resp of Err e \<Rightarrow> True | Ok policy \<Rightarrow> False))"

text \<open>
  The runes that UTF-8 can hold: everything up to \<open>10FFFF\<close> but the surrogates. These
  are the runes that reading a string yields.
\<close>

definition valid_rune :: "nat \<Rightarrow> bool" where
  "valid_rune r = (r < 0xD800 \<or> (0xE000 \<le> r \<and> r \<le> 0x10FFFF))"

text \<open>
  What is taken for granted of Go's case table where a property depends on it: the lower
  case of a rune is a rune, lowering it once more changes nothing, and no rune has the
  colon for its lower case.
\<close>

definition case_table_ok :: "(nat \<Rightarrow> nat) \<Rightarrow> bool" where
  "case_table_ok CaseRanges =
     (\<forall>r. 0x80 \<le> r \<and> valid_rune r \<longrightarrow>
        valid_rune (CaseRanges r) \<and>
        unicode_ToLower CaseRanges (CaseRanges r) = CaseRanges r \<and>
        CaseRanges r \<noteq> 58)"

text \<open>
  A part of the case table for the examples below: the capital letters of Latin-1
  (\<open>C0\<close> to \<open>DE\<close> but the multiplication sign \<open>D7\<close>) are lowered by 32, the Kelvin sign
  \<open>212A\<close> is lowered to the letter \<open>k\<close>, every other rune is left as it is.
\<close>

definition example_table :: "nat \<Rightarrow> nat" where
  "example_table r =
     (if (0xC0 \<le> r \<and> r \<le> 0xD6) \<or> (0xD8 \<le> r \<and> r \<le> 0xDE) then r + 32
      else if r = 0x212A then 0x6B
      else r)"

text \<open>Concrete servers, requests and networks for the examples below.\<close>

definition empty_writer :: ResponseWriter where
  "empty_writer = \<lparr>w_header = Map.empty, w_status = 0, w_body = []\<rparr>"

definition policy_net :: "nat \<Rightarrow> PolicyResponse result \<Rightarrow> string \<Rightarrow> Response result" where
  "policy_net code decoded url = Ok \<lparr>StatusCode = code, Body_Decode = decoded\<rparr>"

definition installed :: "string list \<Rightarrow> ProxyServer" where
  "installed domains =
     snd (UpdateBlocklist example_table (NewProxyServer ''http://localhost:8000/policy'')
            (policy_net 200 (Ok \<lparr>Blocked = domains\<rparr>)))"

definition request_to :: "string \<Rightarrow> Request" where
  "request_to h = \<lparr>Method = ''GET'', Host = h, URL_Host = [], RemoteAddr = ''127.0.0.1:50000''\<rparr>"

section \<open>Properties\<close>

declare parent_loop.simps [simp del]

subsection \<open>Splitting and joining\<close>

lemma Split_not_Nil: "Split s c \<noteq> []"
  by (cases s) (auto split: list.splits)

lemma hd_Split: "hd (Split s c) = takeWhile (\<lambda>x. x \<noteq> c) s"
  by (induction s) (auto split: list.splits simp: Split_not_Nil)

lemma Join_Cons_Cons: "Join ((x # p) # ps) sep = x # Join (p # ps) sep"
  by (cases ps) auto

lemma Join_Split: "Join (Split s c) [c] = s"
proof (induction s)
  case Nil
  then show ?case by simp
next
  case (Cons x s)
  show ?case
  proof (cases "x = c")
    case True
    with Cons show ?thesis by (cases "Split s c") (auto simp: Split_not_Nil)
  next
    case False
    with Cons show ?thesis
      by (cases "Split s c") (auto simp: Split_not_Nil Join_Cons_Cons)
  qed
qed

lemma Split_append: "Split (p @ c # s) c = Split p c @ Split s c"
  by (induction p) (auto split: list.splits simp: Split_not_Nil)

lemma Join_append:
  "xs \<noteq> [] \<Longrightarrow> ys \<noteq> [] \<Longrightarrow> Join (xs @ ys) sep = Join xs sep @ sep @ Join ys sep"
  by (induction xs sep rule: Join.induct) (auto simp: neq_Nil_conv)


lemma takeWhile_sep: "takeWhile (\<lambda>x. x \<noteq> c) (h @ c # p) = takeWhile (\<lambda>x. x \<noteq> c) h"
  by (induction h) auto

subsection \<open>Reading and writing UTF-8\<close>

lemma DecodeRune_ascii:
  "(of_char c :: nat) < 0x80 \<Longrightarrow> DecodeRuneInString (c # cs) = (of_char c, 1)"
  by (simp add: DecodeRuneInString_def)

lemma DecodeRune_width:
  "1 \<le> snd (DecodeRuneInString (c # cs)) \<and> snd (DecodeRuneInString (c # cs)) - 1 \<le> length cs"
  by (auto simp: DecodeRuneInString_def split: list.splits)

lemma DecodeRune_sep:
  assumes "(of_char k :: nat) < 0x80"
  shows "DecodeRuneInString ((c # cs) @ k # b) = DecodeRuneInString (c # cs)"
proof -
  have lo: "\<not> accept_lo x \<le> of_char k" for x
    using assms by (simp add: accept_lo_def)
  have co: "\<not> continuation (of_char k)"
    using assms by (simp add: continuation_def)
  show ?thesis
    by (cases cs; cases "tl cs"; cases "tl (tl cs)")
       (auto simp: DecodeRuneInString_def lo co split: list.splits)
qed

lemma runes_sep:
  "(of_char k :: nat) < 0x80 \<Longrightarrow> runes (a @ k # b) = runes a @ of_char k # runes b"
proof (induction a rule: runes.induct)
  case 1
  then show ?case by (simp add: DecodeRune_ascii)
next
  case (2 c cs)
  obtain r w where d: "DecodeRuneInString (c # cs) = (r, w)" by (cases "DecodeRuneInString (c # cs)")
  have w: "w - 1 \<le> length cs" using DecodeRune_width [of c cs] d by simp
  have "DecodeRuneInString (c # cs @ k # b) = (r, w)"
    using DecodeRune_sep [OF "2.prems", of c cs b] d by simp
  moreover have "runes (drop (w - 1) cs @ k # b) = runes (drop (w - 1) cs) @ of_char k # runes b"
    using "2.IH" [OF d [symmetric] "2.prems"] .
  ultimately show ?case using d w by simp
qed

lemma runes_ascii:
  "list_all (\<lambda>c. (of_char c :: nat) < 0x80) s \<Longrightarrow> runes s = map of_char s"
  by (induction s) (simp_all add: DecodeRune_ascii)


lemma decoded_valid3:
  assumes "0xE0 \<le> s0" "s0 < 0xF0" "accept_lo s0 \<le> s1" "s1 \<le> accept_hi s0" "continuation s2"
  shows "valid_rune ((s0 - 0xE0) * 4096 + (s1 - 0x80) * 64 + (s2 - 0x80)) \<and>
         0x80 \<le> (s0 - 0xE0) * 4096 + (s1 - 0x80) * 64 + (s2 - 0x80)"
  using assms
  by (auto simp: valid_rune_def accept_lo_def accept_hi_def continuation_def split: if_splits)

lemma decoded_valid4:
  assumes "0xF0 \<le> s0" "s0 \<le> 0xF4" "accept_lo s0 \<le> s1" "s1 \<le> accept_hi s0"
    "continuation s2" "continuation s3"
  shows "valid_rune ((s0 - 0xF0) * 262144 + (s1 - 0x80) * 4096 + (s2 - 0x80) * 64 + (s3 - 0x80)) \<and>
         0x80 \<le> (s0 - 0xF0) * 262144 + (s1 - 0x80) * 4096 + (s2 - 0x80) * 64 + (s3 - 0x80)"
  using assms
  by (auto simp: valid_rune_def accept_lo_def accept_hi_def continuation_def split: if_splits)

lemma decoded_valid2:
  assumes "0xC2 \<le> s0" "s0 < 0xE0" "0x80 \<le> s1" "s1 \<le> 0xBF"
  shows "valid_rune ((s0 - 0xC0) * 64 + (s1 - 0x80)) \<and> 0x80 \<le> (s0 - 0xC0) * 64 + (s1 - (0x80::nat))"
  using assms by (auto simp: valid_rune_def)

lemma valid_RuneError: "valid_rune RuneError"
  by (simp add: valid_rune_def RuneError_def)

lemma DecodeRune_props:
  "valid_rune (fst (DecodeRuneInString (c # cs))) \<and>
   (fst (DecodeRuneInString (c # cs)) < 0x80 \<longrightarrow> fst (DecodeRuneInString (c # cs)) = of_char c)"
proof -
  let ?s0 = "of_char c :: nat"
  have err: ?thesis if "DecodeRuneInString (c # cs) = (RuneError, 1)"
    using that by (simp add: valid_RuneError) (simp add: RuneError_def)
  have big: ?thesis if "DecodeRuneInString (c # cs) = (r, w)" "valid_rune r \<and> 0x80 \<le> r" for r w
    using that by simp
  consider "?s0 < 0x80" | "0x80 \<le> ?s0" "?s0 < 0xC2 \<or> 0xF4 < ?s0" | "0xC2 \<le> ?s0" "?s0 < 0xE0"
    | "0xE0 \<le> ?s0" "?s0 < 0xF0" | "0xF0 \<le> ?s0" "?s0 \<le> 0xF4"
    by linarith
  then show ?thesis
  proof cases
    case 1
    then show ?thesis by (simp add: DecodeRuneInString_def valid_rune_def)
  next
    case 2
    then have "DecodeRuneInString (c # cs) = (RuneError, 1)"
      by (simp add: DecodeRuneInString_def)
    then show ?thesis by (rule err)
  next
    case 3
    then have d: "DecodeRuneInString (c # cs) =
        (case map of_char cs of
           s1 # t1 \<Rightarrow> if accept_lo ?s0 \<le> s1 \<and> s1 \<le> accept_hi ?s0
                       then ((?s0 - 0xC0) * 64 + (s1 - 0x80), 2) else (RuneError, 1)
         | [] \<Rightarrow> (RuneError, 1))"
      by (simp add: DecodeRuneInString_def)
    have acc: "accept_lo ?s0 = 0x80" "accept_hi ?s0 = 0xBF"
      using 3 by (simp_all add: accept_lo_def accept_hi_def)
    show ?thesis
    proof (cases "map of_char cs :: nat list")
      case Nil
      with d have "DecodeRuneInString (c # cs) = (RuneError, 1)" by simp
      then show ?thesis by (rule err)
    next
      case (Cons s1 t1)
      show ?thesis
      proof (cases "0x80 \<le> s1 \<and> s1 \<le> 0xBF")
        case True
        with d Cons acc have "DecodeRuneInString (c # cs) = ((?s0 - 0xC0) * 64 + (s1 - 0x80), 2)"
          by simp
        then show ?thesis using decoded_valid2 [of ?s0 s1] 3 True by (intro big) auto
      next
        case False
        with d Cons acc have "DecodeRuneInString (c # cs) = (RuneError, 1)" by auto
        then show ?thesis by (rule err)
      qed
    qed
  next
    case 4
    then have d: "DecodeRuneInString (c # cs) =
        (case map of_char cs of
           s1 # s2 # t2 \<Rightarrow>
             if accept_lo ?s0 \<le> s1 \<and> s1 \<le> accept_hi ?s0 \<and> continuation s2
             then ((?s0 - 0xE0) * 4096 + (s1 - 0x80) * 64 + (s2 - 0x80), 3) else (RuneError, 1)
         | _ \<Rightarrow> (RuneError, 1))"
      by (simp add: DecodeRuneInString_def)
    show ?thesis
    proof (cases "map of_char cs :: nat list")
      case Nil
      with d have "DecodeRuneInString (c # cs) = (RuneError, 1)" by simp
      then show ?thesis by (rule err)
    next
      case c1: (Cons s1 t1)
      show ?thesis
      proof (cases t1)
        case Nil
        with d c1 have "DecodeRuneInString (c # cs) = (RuneError, 1)" by simp
        then show ?thesis by (rule err)
      next
        case c2: (Cons s2 t2)
        show ?thesis
        proof (cases "accept_lo ?s0 \<le> s1 \<and> s1 \<le> accept_hi ?s0 \<and> continuation s2")
          case True
          with d c1 c2 have "DecodeRuneInString (c # cs) =
              ((?s0 - 0xE0) * 4096 + (s1 - 0x80) * 64 + (s2 - 0x80), 3)" by simp
          then show ?thesis using decoded_valid3 [of ?s0 s1 s2] 4 True by (intro big) auto
        next
          case False
          with d c1 c2 have "DecodeRuneInString (c # cs) = (RuneError, 1)" by auto
          then show ?thesis by (rule err)
        qed
      qed
    qed
  next
    case 5
    then have d: "DecodeRuneInString (c # cs) =
        (case map of_char cs of
           s1 # s2 # s3 # t3 \<Rightarrow>
             if accept_lo ?s0 \<le> s1 \<and> s1 \<le> accept_hi ?s0 \<and> continuation s2 \<and> continuation s3
             then ((?s0 - 0xF0) * 262144 + (s1 - 0x80) * 4096 + (s2 - 0x80) * 64 + (s3 - 0x80), 4)
             else (RuneError, 1)
         | _ \<Rightarrow> (RuneError, 1))"
      by (simp add: DecodeRuneInString_def)
    show ?thesis
    proof (cases "map of_char cs :: nat list")
      case Nil
      with d have "DecodeRuneInString (c # cs) = (RuneError, 1)" by simp
      then show ?thesis by (rule err)
    next
      case c1: (Cons s1 t1)
      show ?thesis
      proof (cases t1)
        case Nil
        with d c1 have "DecodeRuneInString (c # cs) = (RuneError, 1)" by simp
        then show ?thesis by (rule err)
      next
        case c2: (Cons s2 t2)
        show ?thesis
        proof (cases t2)
          case Nil
          with d c1 c2 have "DecodeRuneInString (c # cs) = (RuneError, 1)" by simp
          then show ?thesis by (rule err)
        next
          case c3: (Cons s3 t3)
          show ?thesis
          proof (cases "accept_lo ?s0 \<le> s1 \<and> s1 \<le> accept_hi ?s0 \<and> continuation s2 \<and>
              continuation s3")
            case True
            with d c1 c2 c3 have "DecodeRuneInString (c # cs) =
                ((?s0 - 0xF0) * 262144 + (s1 - 0x80) * 4096 + (s2 - 0x80) * 64 + (s3 - 0x80), 4)"
              by simp
            then show ?thesis using decoded_valid4 [of ?s0 s1 s2 s3] 5 True by (intro big) auto
          next
            case False
            with d c1 c2 c3 have "DecodeRuneInString (c # cs) = (RuneError, 1)" by auto
            then show ?thesis by (rule err)
          qed
        qed
      qed
    qed
  qed
qed

lemma DecodeRune_valid: "valid_rune (fst (DecodeRuneInString (c # cs)))"
  using DecodeRune_props [of c cs] by blast

lemma DecodeRune_small:
  "fst (DecodeRuneInString (c # cs)) < 0x80 \<Longrightarrow> fst (DecodeRuneInString (c # cs)) = of_char c"
  using DecodeRune_props [of c cs] by blast

lemma runes_valid: "r \<in> set (runes s) \<Longrightarrow> valid_rune r"
proof (induction s arbitrary: r rule: runes.induct)
  case 1
  then show ?case by simp
next
  case (2 c cs)
  obtain r' w where d: "DecodeRuneInString (c # cs) = (r', w)" by (cases "DecodeRuneInString (c # cs)")
  have "valid_rune r'" using DecodeRune_valid [of c cs] d by simp
  moreover have "x \<in> set (runes (drop (w - 1) cs)) \<Longrightarrow> valid_rune x" for x
    using "2.IH" [OF d [symmetric]] .
  ultimately show ?case using "2.prems" d by auto
qed

lemma runes_small:
  "r \<in> set (runes s) \<Longrightarrow> r < 0x80 \<Longrightarrow> \<exists>c \<in> set s. (of_char c :: nat) = r"
proof (induction s arbitrary: r rule: runes.induct)
  case 1
  then show ?case by simp
next
  case (2 c cs)
  obtain r' w where d: "DecodeRuneInString (c # cs) = (r', w)" by (cases "DecodeRuneInString (c # cs)")
  from "2.prems" d consider "r = r'" | "r \<in> set (runes (drop (w - 1) cs))" by auto
  then show ?case
  proof cases
    case 1
    then have "r = of_char c" using DecodeRune_small [of c cs] d "2.prems"(2) by simp
    then show ?thesis by auto
  next
    case 2
    then obtain x where "x \<in> set (drop (w - 1) cs)" "(of_char x :: nat) = r"
      using "2.IH" [OF d [symmetric] _ "2.prems"(2)] by blast
    then show ?thesis using set_drop_subset [of "w - 1" cs] by auto
  qed
qed

lemma of_char_of_small: "n < 256 \<Longrightarrow> (of_char (char_of n) :: nat) = n"
  by simp

lemma EncodeRune_not_Nil: "EncodeRune r \<noteq> []"
  by (simp add: EncodeRune_def encode3_def)

lemma encode3_high: "r < 0x10000 \<Longrightarrow> c \<in> set (encode3 r) \<Longrightarrow> 0x80 \<le> (of_char c :: nat)"
proof -
  assume r: "r < 0x10000" and c: "c \<in> set (encode3 r)"
  have "0xE0 + r div 4096 < 256" "0x80 + (r div 64) mod 64 < 256" "0x80 + r mod 64 < 256"
    using r by simp_all
  then have "(of_char (char_of (0xE0 + r div 4096)) :: nat) = 0xE0 + r div 4096"
    "(of_char (char_of (0x80 + (r div 64) mod 64)) :: nat) = 0x80 + (r div 64) mod 64"
    "(of_char (char_of (0x80 + r mod 64)) :: nat) = 0x80 + r mod 64"
    by (simp_all only: of_char_of_small)
  with c show ?thesis by (auto simp: encode3_def)
qed

lemma EncodeRune_high:
  assumes "0x80 \<le> r" and "c \<in> set (EncodeRune r)"
  shows "0x80 \<le> (of_char c :: nat)"
proof -
  consider "r < 0x800" | "0x800 \<le> r" "0x10FFFF < r \<or> (0xD800 \<le> r \<and> r \<le> 0xDFFF)"
    | "0x800 \<le> r" "r < 0x10000" "\<not> (0x10FFFF < r \<or> (0xD800 \<le> r \<and> r \<le> 0xDFFF))"
    | "0x10000 \<le> r" "r \<le> 0x10FFFF"
    by linarith
  then show ?thesis
  proof cases
    case 1
    have "0xC0 + r div 64 < 256" "0x80 + r mod 64 < 256" using 1 by simp_all
    then have "(of_char (char_of (0xC0 + r div 64)) :: nat) = 0xC0 + r div 64"
      "(of_char (char_of (0x80 + r mod 64)) :: nat) = 0x80 + r mod 64"
      by (simp_all only: of_char_of_small)
    with assms 1 show ?thesis by (auto simp: EncodeRune_def)
  next
    case 2
    then have "EncodeRune r = encode3 RuneError" by (auto simp: EncodeRune_def)
    with assms(2) show ?thesis using encode3_high [of RuneError c] by (simp add: RuneError_def)
  next
    case 3
    then have "EncodeRune r = encode3 r" by (auto simp: EncodeRune_def)
    with assms(2) 3 show ?thesis using encode3_high [of r c] by simp
  next
    case 4
    have "0xF0 + r div 262144 < 256" "0x80 + (r div 4096) mod 64 < 256"
      "0x80 + (r div 64) mod 64 < 256" "0x80 + r mod 64 < 256"
      using 4 by simp_all
    then have "(of_char (char_of (0xF0 + r div 262144)) :: nat) = 0xF0 + r div 262144"
      "(of_char (char_of (0x80 + (r div 4096) mod 64)) :: nat) = 0x80 + (r div 4096) mod 64"
      "(of_char (char_of (0x80 + (r div 64) mod 64)) :: nat) = 0x80 + (r div 64) mod 64"
      "(of_char (char_of (0x80 + r mod 64)) :: nat) = 0x80 + r mod 64"
      by (simp_all only: of_char_of_small)
    with assms 4 show ?thesis by (auto simp: EncodeRune_def)
  qed
qed

lemma EncodeRune_small: "r < 0x80 \<Longrightarrow> EncodeRune r = [char_of r]"
  by (simp add: EncodeRune_def)


lemma Decode2:
  assumes "0xC2 \<le> b0" "b0 < 0xE0" "0x80 \<le> b1" "b1 \<le> 0xBF"
  shows "DecodeRuneInString (char_of b0 # char_of b1 # rest) = ((b0 - 0xC0) * 64 + (b1 - 0x80), 2)"
proof -
  have "(of_char (char_of b0) :: nat) = b0" "(of_char (char_of b1) :: nat) = b1"
    using assms by simp_all
  then show ?thesis
    using assms by (simp add: DecodeRuneInString_def accept_lo_def accept_hi_def)
qed

lemma Decode3:
  assumes "0xE0 \<le> b0" "b0 < 0xF0" "accept_lo b0 \<le> b1" "b1 \<le> accept_hi b0" "continuation b2"
  shows "DecodeRuneInString (char_of b0 # char_of b1 # char_of b2 # rest) =
         ((b0 - 0xE0) * 4096 + (b1 - 0x80) * 64 + (b2 - 0x80), 3)"
proof -
  have "b1 < 256" using assms(4) by (simp add: accept_hi_def split: if_splits)
  moreover have "b2 < 256" using assms(5) by (simp add: continuation_def)
  ultimately have "(of_char (char_of b0) :: nat) = b0" "(of_char (char_of b1) :: nat) = b1"
    "(of_char (char_of b2) :: nat) = b2"
    using assms by simp_all
  then show ?thesis
    using assms by (simp add: DecodeRuneInString_def)
qed

lemma Decode4:
  assumes "0xF0 \<le> b0" "b0 \<le> 0xF4" "accept_lo b0 \<le> b1" "b1 \<le> accept_hi b0"
    "continuation b2" "continuation b3"
  shows "DecodeRuneInString (char_of b0 # char_of b1 # char_of b2 # char_of b3 # rest) =
         ((b0 - 0xF0) * 262144 + (b1 - 0x80) * 4096 + (b2 - 0x80) * 64 + (b3 - 0x80), 4)"
proof -
  have "b1 < 256" using assms(4) by (simp add: accept_hi_def split: if_splits)
  moreover have "b2 < 256" "b3 < 256" using assms(5,6) by (simp_all add: continuation_def)
  ultimately have "(of_char (char_of b0) :: nat) = b0" "(of_char (char_of b1) :: nat) = b1"
    "(of_char (char_of b2) :: nat) = b2" "(of_char (char_of b3) :: nat) = b3"
    using assms by simp_all
  then show ?thesis
    using assms by (simp add: DecodeRuneInString_def)
qed

lemma rune_of_three_bytes: "(r::nat) div 4096 * 4096 + (r div 64) mod 64 * 64 + r mod 64 = r"
proof -
  have "r mod 4096 = 64 * ((r div 64) mod 64) + r mod 64"
    using mod_mult2_eq [of r 64 64] by simp
  moreover have "r div 4096 * 4096 + r mod 4096 = r" by simp
  ultimately show ?thesis by simp
qed

lemma rune_of_four_bytes:
  "(r::nat) div 262144 * 262144 + (r div 4096) mod 64 * 4096 + (r div 64) mod 64 * 64 + r mod 64 = r"
proof -
  have "r mod 262144 = 4096 * ((r div 4096) mod 64) + r mod 4096"
    using mod_mult2_eq [of r 4096 64] by simp
  moreover have "r mod 4096 = 64 * ((r div 64) mod 64) + r mod 64"
    using mod_mult2_eq [of r 64 64] by simp
  moreover have "r div 262144 * 262144 + r mod 262144 = r" by simp
  ultimately show ?thesis by simp
qed

lemma second_byte_lo3: "2048 \<le> (r::nat) \<Longrightarrow> r div 4096 = 0 \<Longrightarrow> 32 \<le> (r div 64) mod 64"
proof -
  assume a: "2048 \<le> r" "r div 4096 = 0"
  then have "r < 4096" by (simp add: div_eq_0_iff)
  then have "r div 64 < 64" by simp
  moreover have "32 \<le> r div 64" using a(1) by simp
  ultimately show ?thesis by simp
qed

lemma second_byte_hi3: "(r::nat) < 55296 \<Longrightarrow> r div 4096 = 13 \<Longrightarrow> (r div 64) mod 64 \<le> 31"
proof -
  assume a: "r < 55296" "r div 4096 = 13"
  have "r mod 4096 = 64 * ((r div 64) mod 64) + r mod 64"
    using mod_mult2_eq [of r 64 64] by simp
  moreover have "r div 4096 * 4096 + r mod 4096 = r" by simp
  ultimately have "13 * 4096 + 64 * ((r div 64) mod 64) + r mod 64 = r" using a(2) by simp
  then show ?thesis using a(1) by linarith
qed

lemma second_byte_lo4: "65536 \<le> (r::nat) \<Longrightarrow> r div 262144 = 0 \<Longrightarrow> 16 \<le> (r div 4096) mod 64"
proof -
  assume a: "65536 \<le> r" "r div 262144 = 0"
  then have "r < 262144" by (simp add: div_eq_0_iff)
  then have "r div 4096 < 64" by simp
  moreover have "16 \<le> r div 4096" using a(1) by simp
  ultimately show ?thesis by simp
qed

lemma second_byte_hi4: "(r::nat) \<le> 1114111 \<Longrightarrow> r div 262144 = 4 \<Longrightarrow> (r div 4096) mod 64 \<le> 15"
proof -
  assume a: "r \<le> 1114111" "r div 262144 = 4"
  have "r mod 262144 = 4096 * ((r div 4096) mod 64) + r mod 4096"
    using mod_mult2_eq [of r 4096 64] by simp
  moreover have "r div 262144 * 262144 + r mod 262144 = r" by simp
  ultimately have "4 * 262144 + 4096 * ((r div 4096) mod 64) + r mod 4096 = r" using a(2) by simp
  then show ?thesis using a(1) by linarith
qed

lemma first_byte_range2: "128 \<le> (r::nat) \<Longrightarrow> r < 2048 \<Longrightarrow> 2 \<le> r div 64 \<and> r div 64 < 32"
  by arith

lemma first_byte_range3: "(r::nat) < 65536 \<Longrightarrow> r div 4096 < 16"
  by simp

lemma first_byte_range4: "(r::nat) \<le> 1114111 \<Longrightarrow> r div 262144 \<le> 4"
  by simp


lemma Decode_Encode:
  assumes "valid_rune r"
  shows "DecodeRuneInString (EncodeRune r @ rest) = (r, length (EncodeRune r))"
proof -
  consider "r < 0x80" | "0x80 \<le> r" "r < 0x800" | "0x800 \<le> r" "r < 0x10000" | "0x10000 \<le> r"
    by linarith
  then show ?thesis
  proof cases
    case 1
    then show ?thesis by (simp add: EncodeRune_def DecodeRune_ascii)
  next
    case 2
    have e: "EncodeRune r = [char_of (0xC0 + r div 64), char_of (0x80 + r mod 64)]"
      using 2 by (simp add: EncodeRune_def)
    have "0xC2 \<le> 0xC0 + r div 64" "0xC0 + r div 64 < 0xE0" "0x80 \<le> 0x80 + r mod 64"
      "0x80 + r mod 64 \<le> 0xBF"
      using first_byte_range2 [of r] 2 by simp_all
    from Decode2 [OF this, of rest] show ?thesis by (simp add: e)
  next
    case 3
    have ns: "r < 0xD800 \<or> 0xE000 \<le> r" using assms by (auto simp: valid_rune_def)
    have e: "EncodeRune r = [char_of (0xE0 + r div 4096), char_of (0x80 + (r div 64) mod 64),
        char_of (0x80 + r mod 64)]"
      using 3 ns by (auto simp: EncodeRune_def encode3_def)
    have a: "0xE0 \<le> 0xE0 + r div 4096" "0xE0 + r div 4096 < 0xF0"
      using first_byte_range3 [of r] 3 by simp_all
    have b: "accept_lo (0xE0 + r div 4096) \<le> 0x80 + (r div 64) mod 64"
      using second_byte_lo3 [of r] 3 by (simp add: accept_lo_def)
    have c: "0x80 + (r div 64) mod 64 \<le> accept_hi (0xE0 + r div 4096)"
    proof (cases "r div 4096 = 13")
      case True
      then have "r < 57344" using div_less_iff_less_mult [of 4096 r 14] by simp
      with ns have "r < 55296" by simp
      from second_byte_hi3 [OF this True] True show ?thesis by (simp add: accept_hi_def)
    next
      case False
      have "r div 4096 \<noteq> 20" using first_byte_range3 [of r] 3 by simp
      moreover have "(r div 64) mod 64 \<le> 63" using mod_less_divisor [of 64 "r div 64"] by simp
      ultimately show ?thesis using False by (simp add: accept_hi_def)
    qed
    have d: "continuation (0x80 + r mod 64)" by (simp add: continuation_def)
    from Decode3 [OF a b c d, of rest] rune_of_three_bytes [of r] show ?thesis by (simp add: e)
  next
    case 4
    have hi: "r \<le> 0x10FFFF" using assms 4 by (auto simp: valid_rune_def)
    have e: "EncodeRune r = [char_of (0xF0 + r div 262144), char_of (0x80 + (r div 4096) mod 64),
        char_of (0x80 + (r div 64) mod 64), char_of (0x80 + r mod 64)]"
      using 4 hi by (simp add: EncodeRune_def)
    have a: "0xF0 \<le> 0xF0 + r div 262144" "0xF0 + r div 262144 \<le> 0xF4"
      using first_byte_range4 [OF hi] by simp_all
    have b: "accept_lo (0xF0 + r div 262144) \<le> 0x80 + (r div 4096) mod 64"
      using second_byte_lo4 [of r] 4 by (simp add: accept_lo_def)
    have c: "0x80 + (r div 4096) mod 64 \<le> accept_hi (0xF0 + r div 262144)"
    proof (cases "r div 262144 = 4")
      case True
      from second_byte_hi4 [OF hi True] True show ?thesis by (simp add: accept_hi_def)
    next
      case False
      have "(r div 4096) mod 64 \<le> 63" using mod_less_divisor [of 64 "r div 4096"] by simp
      then show ?thesis using False by (simp add: accept_hi_def)
    qed
    have d: "continuation (0x80 + (r div 64) mod 64)" "continuation (0x80 + r mod 64)"
      by (simp_all add: continuation_def)
    from Decode4 [OF a b c d, of rest] rune_of_four_bytes [of r] show ?thesis by (simp add: e)
  qed
qed

lemma runes_Encode: "valid_rune r \<Longrightarrow> runes (EncodeRune r @ rest) = r # runes rest"
proof -
  assume v: "valid_rune r"
  obtain c cs where e: "EncodeRune r = c # cs" using EncodeRune_not_Nil [of r] by (cases "EncodeRune r") auto
  have "DecodeRuneInString (c # cs @ rest) = (r, Suc (length cs))"
    using Decode_Encode [OF v, of rest] e by simp
  then show ?thesis by (simp add: e)
qed

subsection \<open>Lowering\<close>

lemma of_char_lower_upper:
  "65 \<le> (of_char c :: nat) \<Longrightarrow> (of_char c :: nat) \<le> 90 \<Longrightarrow>
   (of_char (lower_byte c) :: nat) = of_char c + 32"
  by (simp add: lower_byte_def)

lemma lower_byte_idem: "lower_byte (lower_byte c) = lower_byte c"
proof (cases "65 \<le> (of_char c :: nat) \<and> (of_char c :: nat) \<le> 90")
  case True
  then have "(of_char (lower_byte c) :: nat) = of_char c + 32"
    by (simp add: of_char_lower_upper)
  then have "\<not> (of_char (lower_byte c) :: nat) \<le> 90" using True by simp
  then show ?thesis by (simp add: lower_byte_def [of "lower_byte c"])
next
  case False
  then show ?thesis by (auto simp add: lower_byte_def)
qed

lemma lower_byte_eq_sep:
  assumes "(of_char k :: nat) < 65"
  shows "lower_byte c = k \<longleftrightarrow> c = k"
proof (cases "65 \<le> (of_char c :: nat) \<and> (of_char c :: nat) \<le> 90")
  case True
  then have "(of_char (lower_byte c) :: nat) = of_char c + 32"
    by (simp add: of_char_lower_upper)
  with True assms have "lower_byte c \<noteq> k" "c \<noteq> k" by auto
  then show ?thesis by simp
next
  case False
  then show ?thesis by (auto simp add: lower_byte_def)
qed

lemma lower_byte_colon [simp]: "lower_byte c = CHR '':'' \<longleftrightarrow> c = CHR '':''"
  by (rule lower_byte_eq_sep) simp

lemma lower_byte_dot [simp]: "lower_byte c = CHR ''.'' \<longleftrightarrow> c = CHR ''.''"
  by (rule lower_byte_eq_sep) simp


lemma lower_small: "r < 0x80 \<Longrightarrow> unicode_ToLower T r < 0x80"
  by (auto simp: unicode_ToLower_def)

lemma Encode_lower_ascii:
  "(of_char c :: nat) < 0x80 \<Longrightarrow> EncodeRune (unicode_ToLower T (of_char c)) = [lower_byte c]"
  by (auto simp: EncodeRune_def unicode_ToLower_def lower_byte_def)

lemma Map_ascii:
  "list_all (\<lambda>c. (of_char c :: nat) < 0x80) s \<Longrightarrow>
   strings_Map (unicode_ToLower T) s = map lower_byte s"
  by (induction s) (simp_all add: strings_Map_def DecodeRune_ascii Encode_lower_ascii)

lemma ToLower_eq_Map: "ToLower T s = strings_Map (unicode_ToLower T) s"
  by (simp add: ToLower_def Map_ascii)

lemma ToLower_Nil [simp]: "ToLower T [] = []"
  by (simp add: ToLower_def)

lemma ToLower_sep:
  "(of_char k :: nat) < 0x80 \<Longrightarrow>
   ToLower T (a @ k # b) = ToLower T a @ lower_byte k # ToLower T b"
  by (simp add: ToLower_eq_Map strings_Map_def runes_sep Encode_lower_ascii)

lemma lower_valid:
  "case_table_ok T \<Longrightarrow> valid_rune r \<Longrightarrow> valid_rune (unicode_ToLower T r)"
  by (auto simp: case_table_ok_def unicode_ToLower_def valid_rune_def)

lemma lower_idem:
  "case_table_ok T \<Longrightarrow> valid_rune r \<Longrightarrow>
   unicode_ToLower T (unicode_ToLower T r) = unicode_ToLower T r"
proof (cases "r \<le> 0x7F")
  case True
  then show ?thesis by (auto simp: unicode_ToLower_def)
next
  case False
  assume "case_table_ok T" "valid_rune r"
  with False have "unicode_ToLower T (T r) = T r" by (simp add: case_table_ok_def)
  with False show ?thesis by (simp add: unicode_ToLower_def)
qed

lemma lower_colon:
  assumes "case_table_ok T" and "valid_rune r" and "unicode_ToLower T r = 58"
  shows "r = 58"
proof (cases "r \<le> 0x7F")
  case True
  with assms(3) show ?thesis by (simp add: unicode_ToLower_def split: if_splits)
next
  case False
  with assms(1,2) have "T r \<noteq> 58" by (simp add: case_table_ok_def)
  with False assms(3) show ?thesis by (simp add: unicode_ToLower_def)
qed

lemma runes_concat_Encode:
  "\<forall>r \<in> set rs. valid_rune r \<Longrightarrow> runes (concat (map EncodeRune rs)) = rs"
  by (induction rs) (simp_all add: runes_Encode)

lemma ToLower_idem:
  assumes "case_table_ok T"
  shows "ToLower T (ToLower T s) = ToLower T s"
proof -
  let ?L = "unicode_ToLower T"
  have v: "\<forall>r \<in> set (map ?L (runes s)). valid_rune r"
    using assms by (auto intro: lower_valid runes_valid)
  have "strings_Map ?L s = concat (map EncodeRune (map ?L (runes s)))"
    by (simp add: strings_Map_def comp_def)
  then have r: "runes (strings_Map ?L s) = map ?L (runes s)"
    using runes_concat_Encode [OF v] by simp
  have m: "map (\<lambda>r. EncodeRune (?L (?L r))) (runes s) = map (\<lambda>r. EncodeRune (?L r)) (runes s)"
    by (rule map_cong [OF refl]) (simp add: lower_idem [OF assms] runes_valid)
  have "strings_Map ?L (strings_Map ?L s) = concat (map (\<lambda>r. EncodeRune (?L (?L r))) (runes s))"
    unfolding strings_Map_def [of ?L "strings_Map ?L s"] r by (simp add: comp_def)
  also have "\<dots> = strings_Map ?L s"
    unfolding m by (simp add: strings_Map_def)
  finally show ?thesis by (simp add: ToLower_eq_Map)
qed

lemma Encode_colon: "CHR '':'' \<in> set (EncodeRune r) \<Longrightarrow> r = 58"
proof (cases "r < 0x80")
  case True
  assume "CHR '':'' \<in> set (EncodeRune r)"
  with True have "char_of r = CHR '':''" by (simp add: EncodeRune_small)
  then have "(of_char (char_of r) :: nat) = 58" by simp
  with True show ?thesis by simp
next
  case False
  assume "CHR '':'' \<in> set (EncodeRune r)"
  with False have "0x80 \<le> (of_char (CHR '':'') :: nat)" using EncodeRune_high [of r "CHR '':''"] by simp
  then show ?thesis by simp
qed

lemma ToLower_no_colon:
  assumes "case_table_ok T" and "CHR '':'' \<notin> set s"
  shows "CHR '':'' \<notin> set (ToLower T s)"
proof
  assume "CHR '':'' \<in> set (ToLower T s)"
  then obtain r where r: "r \<in> set (runes s)" and "CHR '':'' \<in> set (EncodeRune (unicode_ToLower T r))"
    by (auto simp: ToLower_eq_Map strings_Map_def)
  then have "unicode_ToLower T r = 58" by (simp add: Encode_colon)
  then have "r = 58" using assms(1) r by (simp add: lower_colon runes_valid)
  then obtain c where "c \<in> set s" "(of_char c :: nat) = 58" using runes_small [OF r] by auto
  then have "(of_char c :: nat) = of_char (CHR '':'')" by simp
  then have "c = CHR '':''" by (simp only: of_char_eq_iff)
  with \<open>c \<in> set s\<close> assms(2) show False by simp
qed

lemma takeWhile_no_sep: "c \<notin> set s \<Longrightarrow> takeWhile (\<lambda>x. x \<noteq> c) s = s"
  by (induction s) auto

lemma takeWhile_at_sep: "c \<notin> set p \<Longrightarrow> takeWhile (\<lambda>x. x \<noteq> c) (p @ c # q) = p"
  by (induction p) auto

lemma takeWhile_ToLower:
  assumes "case_table_ok T"
  shows "takeWhile (\<lambda>x. x \<noteq> CHR '':'') (ToLower T s) =
         ToLower T (takeWhile (\<lambda>x. x \<noteq> CHR '':'') s)"
proof (cases "CHR '':'' \<in> set s")
  case False
  then have "CHR '':'' \<notin> set (ToLower T s)" using assms by (rule ToLower_no_colon [rotated])
  with False show ?thesis by (simp add: takeWhile_no_sep)
next
  case True
  then obtain p q where s: "s = p @ CHR '':'' # q" and p: "CHR '':'' \<notin> set p"
    by (meson split_list_first)
  have lp: "CHR '':'' \<notin> set (ToLower T p)" using assms p by (rule ToLower_no_colon)
  have "ToLower T s = ToLower T p @ CHR '':'' # ToLower T q"
    unfolding s by (simp add: ToLower_sep lower_byte_def)
  moreover have "takeWhile (\<lambda>x. x \<noteq> CHR '':'') (p @ CHR '':'' # q) = p"
    using p by (rule takeWhile_at_sep)
  moreover have "takeWhile (\<lambda>x. x \<noteq> CHR '':'') (ToLower T p @ CHR '':'' # ToLower T q) = ToLower T p"
    using lp by (rule takeWhile_at_sep)
  ultimately show ?thesis by (simp add: s)
qed

lemma case_table_ok_example: "case_table_ok example_table"
  unfolding case_table_ok_def
proof (intro allI impI)
  fix r :: nat
  assume a: "0x80 \<le> r \<and> valid_rune r"
  consider "(0xC0 \<le> r \<and> r \<le> 0xD6) \<or> (0xD8 \<le> r \<and> r \<le> 0xDE)" | "r = 0x212A"
    | "\<not> ((0xC0 \<le> r \<and> r \<le> 0xD6) \<or> (0xD8 \<le> r \<and> r \<le> 0xDE))" "r \<noteq> 0x212A"
    by blast
  then show "valid_rune (example_table r) \<and>
      unicode_ToLower example_table (example_table r) = example_table r \<and> example_table r \<noteq> 58"
  proof cases
    case 1
    then have e: "example_table r = r + 32" by (simp add: example_table_def)
    have "example_table (r + 32) = r + 32" using 1 by (auto simp: example_table_def)
    with 1 show ?thesis unfolding e by (auto simp: valid_rune_def unicode_ToLower_def)
  next
    case 2
    then show ?thesis by (simp add: example_table_def valid_rune_def unicode_ToLower_def)
  next
    case 3
    then have e: "example_table r = r" by (simp add: example_table_def)
    show ?thesis unfolding e using a by (simp add: unicode_ToLower_def e)
  qed
qed

subsection \<open>The parent-domain loop\<close>

lemma parent_loop_iff:
  "parent_loop ps parts i \<longleftrightarrow>
     (\<exists>j. i \<le> j \<and> j < length parts \<and> lookup (blocklist ps) (Join (drop j parts) ''.''))"
proof (induction ps parts i rule: parent_loop.induct)
  case (1 ps parts i)
  show ?case
  proof (cases "i < length parts")
    case False
    then show ?thesis by (subst parent_loop.simps) auto
  next
    case True
    show ?thesis
    proof (cases "lookup (blocklist ps) (Join (drop i parts) ''.'')")
      case hit: True
      with True show ?thesis by (subst parent_loop.simps) auto
    next
      case miss: False
      have "parent_loop ps parts i = parent_loop ps parts (Suc i)"
        using True miss by (subst parent_loop.simps) simp
      also have "\<dots> \<longleftrightarrow> (\<exists>j. Suc i \<le> j \<and> j < length parts \<and>
          lookup (blocklist ps) (Join (drop j parts) ''.''))"
        using "1.IH" [OF True miss] .
      also have "\<dots> \<longleftrightarrow> (\<exists>j. i \<le> j \<and> j < length parts \<and>
          lookup (blocklist ps) (Join (drop j parts) ''.''))"
        using miss by (metis Suc_leD Suc_leI le_neq_implies_less)
      finally show ?thesis .
    qed
  qed
qed

lemma label_suffix_iff:
  "label_suffix s d \<longleftrightarrow>
     (\<exists>j. j < length (Split d (CHR ''.'')) \<and> Join (drop j (Split d (CHR ''.''))) ''.'' = s)"
proof
  let ?c = "CHR ''.''"
  assume "label_suffix s d"
  then consider "s = d" | p where "d = p @ ?c # s"
    unfolding label_suffix_def suffix_def by auto
  then show "\<exists>j. j < length (Split d ?c) \<and> Join (drop j (Split d ?c)) ''.'' = s"
  proof cases
    case 1
    have "0 < length (Split d ?c)" using Split_not_Nil [of d ?c] by simp
    moreover have "Join (drop 0 (Split d ?c)) ''.'' = s" using 1 by (simp add: Join_Split)
    ultimately show ?thesis by blast
  next
    case 2
    have sp: "Split d ?c = Split p ?c @ Split s ?c" using 2 by (simp add: Split_append)
    have "length (Split p ?c) < length (Split d ?c)"
      using sp Split_not_Nil [of s ?c] by simp
    moreover have "Join (drop (length (Split p ?c)) (Split d ?c)) ''.'' = s"
      using sp by (simp add: Join_Split)
    ultimately show ?thesis by blast
  qed
next
  let ?c = "CHR ''.''"
  assume "\<exists>j. j < length (Split d ?c) \<and> Join (drop j (Split d ?c)) ''.'' = s"
  then obtain j where j: "j < length (Split d ?c)" and s: "Join (drop j (Split d ?c)) ''.'' = s"
    by blast
  show "label_suffix s d"
  proof (cases j)
    case 0
    with s show ?thesis by (simp add: Join_Split label_suffix_def)
  next
    case (Suc k)
    let ?xs = "take j (Split d ?c)" and ?ys = "drop j (Split d ?c)"
    have ne: "?xs \<noteq> []" "?ys \<noteq> []" using j Suc by auto
    have "d = Join (?xs @ ?ys) ''.''" by (simp add: Join_Split)
    also have "\<dots> = Join ?xs ''.'' @ ''.'' @ Join ?ys ''.''" by (rule Join_append [OF ne])
    finally have "d = Join ?xs ''.'' @ ?c # s" using s by simp
    then show ?thesis unfolding label_suffix_def suffix_def by blast
  qed
qed


subsection \<open>The matcher tests exactly the label suffixes of the normalized host\<close>

lemma IsBlocked_normalize:
  "IsBlocked T ps host \<longleftrightarrow>
     lookup (blocklist ps) (normalize_host T host) \<or>
     parent_loop ps (Split (normalize_host T host) (CHR ''.'')) 1"
  by (simp add: IsBlocked_def normalize_host_def hd_Split Let_def)

lemma IsBlocked_iff:
  "IsBlocked T ps host \<longleftrightarrow>
     (\<exists>s. label_suffix s (normalize_host T host) \<and> lookup (blocklist ps) s)"
proof -
  let ?d = "normalize_host T host"
  let ?parts = "Split ?d (CHR ''.'')"
  have "IsBlocked T ps host \<longleftrightarrow>
      lookup (blocklist ps) (Join (drop 0 ?parts) ''.'') \<or>
      (\<exists>j. 1 \<le> j \<and> j < length ?parts \<and> lookup (blocklist ps) (Join (drop j ?parts) ''.''))"
    by (simp add: IsBlocked_normalize parent_loop_iff Join_Split)
  also have "\<dots> \<longleftrightarrow> (\<exists>j. j < length ?parts \<and> lookup (blocklist ps) (Join (drop j ?parts) ''.''))"
  proof -
    have "0 < length ?parts" using Split_not_Nil [of ?d "CHR ''.''"] by simp
    then show ?thesis
      by (metis One_nat_def Suc_leI neq0_conv)
  qed
  also have "\<dots> \<longleftrightarrow> (\<exists>s. label_suffix s ?d \<and> lookup (blocklist ps) s)"
    by (auto simp: label_suffix_iff)
  finally show ?thesis .
qed

lemma normalize_host_ToLower:
  "case_table_ok T \<Longrightarrow> normalize_host T (ToLower T h) = normalize_host T h"
  by (simp add: normalize_host_def takeWhile_ToLower ToLower_idem)

lemma normalize_host_port: "normalize_host T (h @ '':'' @ p) = normalize_host T h"
  by (simp add: normalize_host_def takeWhile_sep)

lemma normalize_host_cut:
  "normalize_host T (takeWhile (\<lambda>c. c \<noteq> CHR '':'') h) = normalize_host T h"
  by (simp add: normalize_host_def)

lemma ToLower_dot: "ToLower T (P @ ''.'' @ D) = ToLower T P @ ''.'' @ ToLower T D"
  using ToLower_sep [of "CHR ''.''" T P D] by (simp add: lower_byte_def)

lemma normalize_host_plain: "CHR '':'' \<notin> set h \<Longrightarrow> normalize_host T h = ToLower T h"
  by (simp add: normalize_host_def takeWhile_no_sep)

lemma blocklist_installed: "blocklist (installed ds) = rebuild example_table Map.empty ds"
  by (simp add: installed_def UpdateBlocklist_def policy_net_def NewProxyServer_def StatusOK_def)

subsection \<open>Lowering concrete strings\<close>

lemma ToLower_ascii_append:
  "list_all (\<lambda>c. (of_char c :: nat) < 0x80) a \<Longrightarrow>
   ToLower T (a @ b) = map lower_byte a @ ToLower T b"
proof (induction a)
  case Nil
  then show ?case by simp
next
  case (Cons c a)
  then have "ToLower T ((c # a) @ b) = ToLower T [] @ lower_byte c # ToLower T (a @ b)"
    using ToLower_sep [of c T "[]" "a @ b"] by simp
  with Cons show ?case by simp
qed

lemma ToLower_Encode:
  "valid_rune r \<Longrightarrow>
   ToLower T (EncodeRune r @ rest) = EncodeRune (unicode_ToLower T r) @ ToLower T rest"
  by (simp add: ToLower_eq_Map strings_Map_def runes_Encode)

lemma ToLower_invalid_byte:
  "0xF4 < (of_char c :: nat) \<Longrightarrow>
   ToLower T (c # rest) = EncodeRune (unicode_ToLower T RuneError) @ ToLower T rest"
  by (simp add: ToLower_eq_Map strings_Map_def DecodeRuneInString_def)

text \<open>
  Lowering is by runes, not by bytes. With the part of the case table that
  \<open>example_table\<close> holds: \<open>E\<close>-acute (the bytes \<open>C3 89\<close>) is lowered to \<open>e\<close>-acute (\<open>C3 A9\<close>),
  the Kelvin sign (\<open>E2 84 AA\<close>) to the letter \<open>k\<close>, and a byte that is not UTF-8 to the
  three bytes of \<open>RuneError\<close>.
\<close>

lemma EncodeRune_examples:
  "EncodeRune 0xC9 = [CHR 0xC3, CHR 0x89]" "EncodeRune 0xE9 = [CHR 0xC3, CHR 0xA9]"
  "EncodeRune 0x212A = [CHR 0xE2, CHR 0x84, CHR 0xAA]" "EncodeRune 0x6B = ''k''"
  "EncodeRune 0xFFFD = [CHR 0xEF, CHR 0xBF, CHR 0xBD]"
  by (simp_all add: EncodeRune_def encode3_def RuneError_def char_of_eq_iff)

lemma unicode_ToLower_examples:
  "unicode_ToLower example_table 0xC9 = 0xE9" "unicode_ToLower example_table 0xE9 = 0xE9"
  "unicode_ToLower example_table 0x212A = 0x6B" "unicode_ToLower example_table 0xFFFD = 0xFFFD"
  by (simp_all add: unicode_ToLower_def example_table_def)

lemma ToLower_ecole:
  "ToLower example_table (CHR 0xC3 # CHR 0x89 # ''COLE.fr'') = CHR 0xC3 # CHR 0xA9 # ''cole.fr''"
  "ToLower example_table (CHR 0xC3 # CHR 0xA9 # ''cole.fr'') = CHR 0xC3 # CHR 0xA9 # ''cole.fr''"
proof -
  have v: "valid_rune 0xC9" "valid_rune 0xE9" by (simp_all add: valid_rune_def)
  have a: "ToLower example_table ''COLE.fr'' = ''cole.fr''"
    "ToLower example_table ''cole.fr'' = ''cole.fr''"
    by code_simp+
  from ToLower_Encode [OF v(1), of example_table "''COLE.fr''"] a
  show "ToLower example_table (CHR 0xC3 # CHR 0x89 # ''COLE.fr'') = CHR 0xC3 # CHR 0xA9 # ''cole.fr''"
    by (simp add: EncodeRune_examples unicode_ToLower_examples)
  from ToLower_Encode [OF v(2), of example_table "''cole.fr''"] a
  show "ToLower example_table (CHR 0xC3 # CHR 0xA9 # ''cole.fr'') = CHR 0xC3 # CHR 0xA9 # ''cole.fr''"
    by (simp add: EncodeRune_examples unicode_ToLower_examples)
qed

lemma ToLower_kelvin:
  "ToLower example_table (''faceboo'' @ CHR 0xE2 # CHR 0x84 # CHR 0xAA # ''.com'') = ''facebook.com''"
proof -
  have v: "valid_rune 0x212A" by (simp add: valid_rune_def)
  have a: "ToLower example_table ''.com'' = ''.com''" by code_simp
  have b: "map lower_byte ''faceboo'' = ''faceboo''" by code_simp
  have c: "list_all (\<lambda>c. (of_char c :: nat) < 0x80) ''faceboo''" by simp
  have "ToLower example_table (CHR 0xE2 # CHR 0x84 # CHR 0xAA # ''.com'') = ''k.com''"
    using ToLower_Encode [OF v, of example_table "''.com''"] a
    by (simp add: EncodeRune_examples unicode_ToLower_examples)
  with ToLower_ascii_append [OF c, of example_table "CHR 0xE2 # CHR 0x84 # CHR 0xAA # ''.com''"] b
  show ?thesis by simp
qed

lemma ToLower_not_utf8:
  "ToLower example_table (CHR 0xFF # ''.com'') = CHR 0xEF # CHR 0xBF # CHR 0xBD # ''.com''"
proof -
  have a: "ToLower example_table ''.com'' = ''.com''" by code_simp
  have "0xF4 < (of_char (CHR 0xFF) :: nat)" by simp
  from ToLower_invalid_byte [OF this, of example_table "''.com''"] a show ?thesis
    by (simp add: EncodeRune_examples unicode_ToLower_examples RuneError_def)
qed

text \<open>
  So the host \<open>faceboo\<close>, Kelvin sign, \<open>.com\<close> is blocked when \<open>facebook.com\<close> is, and
  the host that is the byte \<open>FF\<close> and \<open>.com\<close> is blocked when \<open>RuneError\<close> and \<open>.com\<close> is
  an entry.
\<close>

lemma IsBlocked_kelvin_host:
  "IsBlocked example_table (installed [''facebook.com''])
     (''faceboo'' @ CHR 0xE2 # CHR 0x84 # CHR 0xAA # ''.com'')"
proof -
  let ?h = "''faceboo'' @ CHR 0xE2 # CHR 0x84 # CHR 0xAA # ''.com''"
  have "CHR '':'' \<notin> set ?h" by simp
  then have "normalize_host example_table ?h = ToLower example_table ?h"
    by (rule normalize_host_plain)
  then have "normalize_host example_table ?h = ''facebook.com''"
    by (simp only: ToLower_kelvin)
  moreover have "lookup (blocklist (installed [''facebook.com''])) ''facebook.com''" by code_simp
  ultimately show ?thesis by (simp only: IsBlocked_normalize simp_thms)
qed

lemma IsBlocked_not_utf8_host:
  "IsBlocked example_table (installed [CHR 0xEF # CHR 0xBF # CHR 0xBD # ''.com''])
     (CHR 0xFF # ''.com'')"
proof -
  let ?e = "CHR 0xEF # CHR 0xBF # CHR 0xBD # ''.com''"
  let ?h = "CHR 0xFF # ''.com''"
  have v: "valid_rune 0xFFFD" by (simp add: valid_rune_def)
  have a: "ToLower example_table ''.com'' = ''.com''" by code_simp
  have e: "ToLower example_table ?e = ?e"
    using ToLower_Encode [OF v, of example_table "''.com''"] a
    by (simp add: EncodeRune_examples unicode_ToLower_examples)
  have "CHR '':'' \<notin> set ?h" by simp
  then have "normalize_host example_table ?h = ToLower example_table ?h"
    by (rule normalize_host_plain)
  then have "normalize_host example_table ?h = ?e"
    by (simp only: ToLower_not_utf8)
  moreover have "lookup (blocklist (installed [?e])) ?e"
    by (simp add: blocklist_installed e lookup_def)
  ultimately show ?thesis by (simp only: IsBlocked_normalize simp_thms)
qed

subsection \<open>Claims about the matcher\<close>

text \<open>
  C2, as the program has it. A domain \<open>D\<close> of the blocklist that holds no colon and is in
  lower case (as every entry that \<open>UpdateBlocklist\<close> installs is) is blocked, and so is
  \<open>P.D\<close> for every subdomain prefix \<open>P\<close> that holds no colon: blocking a domain blocks
  all of its subdomains.
\<close>

theorem IsBlocked_domain_and_subdomains:
  assumes "lookup (blocklist ps) D" and "CHR '':'' \<notin> set D" and "ToLower T D = D"
    and "CHR '':'' \<notin> set P"
  shows "IsBlocked T ps D \<and> IsBlocked T ps (P @ ''.'' @ D)"
proof
  have "normalize_host T D = D" using assms by (simp add: normalize_host_plain)
  moreover have "label_suffix D D" by (simp add: label_suffix_def)
  ultimately show "IsBlocked T ps D" using assms(1) by (auto simp: IsBlocked_iff)
next
  have "normalize_host T (P @ ''.'' @ D) = ToLower T P @ ''.'' @ D"
    using assms by (simp add: normalize_host_plain ToLower_dot del: append.simps)
  moreover have "label_suffix D (ToLower T P @ ''.'' @ D)"
    by (simp add: label_suffix_def suffix_def)
  ultimately show "IsBlocked T ps (P @ ''.'' @ D)" using assms(1) by (auto simp: IsBlocked_iff)
qed

theorem IsBlocked_domain_and_subdomains_witness:
  "lookup (blocklist (installed [''Facebook.com''])) ''facebook.com'' \<and>
   CHR '':'' \<notin> set ''facebook.com'' \<and> ToLower example_table ''facebook.com'' = ''facebook.com'' \<and>
   CHR '':'' \<notin> set ''WWW.m'' \<and>
   IsBlocked example_table (installed [''Facebook.com'']) ''facebook.com'' \<and>
   IsBlocked example_table (installed [''Facebook.com'']) ''WWW.m.facebook.com''"
proof -
  have a: "lookup (blocklist (installed [''Facebook.com''])) ''facebook.com''" by code_simp
  have b: "CHR '':'' \<notin> set ''facebook.com''" by simp
  have c: "ToLower example_table ''facebook.com'' = ''facebook.com''" by code_simp
  have d: "CHR '':'' \<notin> set ''WWW.m''" by simp
  from IsBlocked_domain_and_subdomains [OF a b c d] a b c d show ?thesis by simp
qed

text \<open>
  C2 as stated fails for an entry that holds a colon. The policy list
  \<open>["facebook.com:8080"]\<close> installs the entry \<open>facebook.com:8080\<close>, which is then in the
  blocklist; the matcher cuts every host at its first colon, so neither that string nor
  a subdomain of it is blocked.
\<close>

theorem IsBlocked_entry_with_port_counterexample:
  "lookup (blocklist (installed [''facebook.com:8080''])) ''facebook.com:8080'' \<and>
   \<not> IsBlocked example_table (installed [''facebook.com:8080'']) ''facebook.com:8080'' \<and>
   \<not> IsBlocked example_table (installed [''facebook.com:8080'']) ''www.facebook.com:8080''"
  by code_simp

text \<open>
  C3. When neither the normalized host (cut at its first colon, in lower case) nor any of
  its right-hand label suffixes is in the blocklist, \<open>IsBlocked\<close> returns false, whatever
  the case table. A blocked domain that occurs in the host as a substring only, not as a
  label suffix, does not block it: \<open>facebook.com\<close> against \<open>notfacebook.com\<close> is the
  witness.
\<close>

theorem IsBlocked_no_label_suffix:
  "(\<forall>s. label_suffix s (normalize_host T D) \<longrightarrow> \<not> lookup (blocklist ps) s) \<Longrightarrow>
   \<not> IsBlocked T ps D"
  by (simp add: IsBlocked_iff)

theorem IsBlocked_no_label_suffix_witness:
  "\<not> label_suffix ''facebook.com'' (normalize_host example_table ''notfacebook.com'') \<and>
   lookup (blocklist (installed [''facebook.com''])) ''facebook.com'' \<and>
   \<not> IsBlocked example_table (installed [''facebook.com'']) ''notfacebook.com''"
proof -
  have n: "\<not> label_suffix ''facebook.com'' (normalize_host example_table ''notfacebook.com'')"
    by code_simp
  have low: "ToLower example_table ''facebook.com'' = ''facebook.com''"
    by code_simp
  have only: "lookup (blocklist (installed [''facebook.com''])) s \<longleftrightarrow> s = ''facebook.com''" for s
    by (simp add: blocklist_installed low lookup_def)
  have "\<forall>s. label_suffix s (normalize_host example_table ''notfacebook.com'') \<longrightarrow>
      \<not> lookup (blocklist (installed [''facebook.com''])) s"
    using n by (auto simp: only)
  then have "\<not> IsBlocked example_table (installed [''facebook.com'']) ''notfacebook.com''"
    by (rule IsBlocked_no_label_suffix)
  with n only show ?thesis by simp
qed

text \<open>
  C8. Port suffixes are ignored by the matcher: \<open>IsBlocked (h:p) = IsBlocked h\<close> for every
  host \<open>h\<close> and port \<open>p\<close>, and so for \<open>facebook.com:8080\<close> and \<open>facebook.com\<close>.
\<close>

theorem IsBlocked_port_ignored:
  "IsBlocked T ps (h @ '':'' @ p) = IsBlocked T ps h \<and>
   IsBlocked T ps ''facebook.com:8080'' = IsBlocked T ps ''facebook.com''"
proof -
  have gen: "IsBlocked T ps (h @ '':'' @ p) = IsBlocked T ps h" for h p
    by (simp only: IsBlocked_iff normalize_host_port)
  from gen [of "''facebook.com''" "''8080''"] gen show ?thesis by simp
qed

text \<open>
  C9. Matching is case-insensitive: \<open>IsBlocked h\<close> equals \<open>IsBlocked\<close> of \<open>h\<close> in lower
  case, for every host and every blocklist (one installed by \<open>UpdateBlocklist\<close> or any
  other), and so for \<open>FaceBook.com\<close> and \<open>facebook.com\<close>. For hosts with runes above 127
  this rests on Go's case table, of which it is taken that lowering twice is lowering
  once and that no rune is lowered to a colon.
\<close>

theorem IsBlocked_case_insensitive:
  assumes "case_table_ok T"
  shows "IsBlocked T ps (ToLower T h) = IsBlocked T ps h \<and>
         IsBlocked T ps ''FaceBook.com'' = IsBlocked T ps ''facebook.com''"
proof -
  have gen: "IsBlocked T ps (ToLower T h) = IsBlocked T ps h" for h
    by (simp only: IsBlocked_iff normalize_host_ToLower [OF assms])
  have "map lower_byte ''FaceBook.com'' = ''facebook.com''" by code_simp
  then have "ToLower T ''FaceBook.com'' = ''facebook.com''" by (simp add: ToLower_def)
  with gen [of "''FaceBook.com''"] gen show ?thesis by simp
qed

text \<open>
  C10. The host is cut at its first colon, not at a trailing port: \<open>IsBlocked host\<close>
  equals \<open>IsBlocked\<close> of what stands before the first colon of \<open>host\<close> (the whole host
  when it has no colon). For the bracketed IPv6 literal \<open>[::1]:8080\<close> that is the string
  \<open>[\<close>, which has no dot: the answer is whether \<open>[\<close> itself is in the blocklist, and no
  other entry is consulted.
\<close>

theorem IsBlocked_first_colon:
  "IsBlocked T ps host = IsBlocked T ps (takeWhile (\<lambda>c. c \<noteq> CHR '':'') host) \<and>
   IsBlocked T ps ''[::1]:8080'' = lookup (blocklist ps) ''[''"
proof -
  have gen: "IsBlocked T ps host = IsBlocked T ps (takeWhile (\<lambda>c. c \<noteq> CHR '':'') host)"
    by (simp only: IsBlocked_iff normalize_host_cut)
  have n: "normalize_host T ''[::1]:8080'' = ''[''"
    by (simp add: normalize_host_def ToLower_def lower_byte_def)
  have "Split ''['' (CHR ''.'') = [''['']" by code_simp
  then have "\<not> parent_loop ps (Split ''['' (CHR ''.'')) 1"
    by (subst parent_loop.simps) simp
  then have "IsBlocked T ps ''[::1]:8080'' = lookup (blocklist ps) ''[''"
    by (simp add: IsBlocked_normalize n)
  with gen show ?thesis by simp
qed

text \<open>
  The instances of C8, C9 and C10 on concrete blocklists. For C9 the blocklist holds
  \<open>e\<close>-acute \<open>cole.fr\<close> and the host is \<open>E\<close>-acute \<open>COLE.fr\<close>: both spellings are
  blocked.
\<close>

theorem IsBlocked_port_ignored_witness:
  "IsBlocked example_table (installed [''facebook.com'']) (''www.facebook.com'' @ '':'' @ ''8080'') \<and>
   IsBlocked example_table (installed [''facebook.com'']) ''www.facebook.com''"
proof -
  have "IsBlocked example_table (installed [''facebook.com'']) ''www.facebook.com''" by code_simp
  with IsBlocked_port_ignored
    [of example_table "installed [''facebook.com'']" "''www.facebook.com''" "''8080''"]
  show ?thesis by blast
qed

theorem IsBlocked_case_insensitive_witness:
  "case_table_ok example_table \<and>
   ToLower example_table (CHR 0xC3 # CHR 0x89 # ''COLE.fr'') = CHR 0xC3 # CHR 0xA9 # ''cole.fr'' \<and>
   IsBlocked example_table (installed [CHR 0xC3 # CHR 0xA9 # ''cole.fr''])
     (CHR 0xC3 # CHR 0x89 # ''COLE.fr'') \<and>
   IsBlocked example_table (installed [CHR 0xC3 # CHR 0xA9 # ''cole.fr''])
     (CHR 0xC3 # CHR 0xA9 # ''cole.fr'')"
proof -
  let ?e = "CHR 0xC3 # CHR 0xA9 # ''cole.fr''"
  let ?ps = "installed [?e]"
  let ?h = "CHR 0xC3 # CHR 0x89 # ''COLE.fr''"
  have "CHR '':'' \<notin> set ?e" by simp
  then have "normalize_host example_table ?e = ToLower example_table ?e"
    by (rule normalize_host_plain)
  then have n: "normalize_host example_table ?e = ?e"
    by (simp only: ToLower_ecole)
  have "lookup (blocklist ?ps) ?e"
    by (simp add: blocklist_installed ToLower_ecole lookup_def)
  with n have b: "IsBlocked example_table ?ps ?e" by (simp only: IsBlocked_normalize simp_thms)
  from IsBlocked_case_insensitive [OF case_table_ok_example, of ?ps ?h]
  have "IsBlocked example_table ?ps (ToLower example_table ?h) = IsBlocked example_table ?ps ?h"
    by blast
  with b have "IsBlocked example_table ?ps ?h" by (simp only: ToLower_ecole)
  with b ToLower_ecole(1) case_table_ok_example show ?thesis by blast
qed

theorem IsBlocked_first_colon_witness:
  "\<not> IsBlocked example_table (installed [''facebook.com'']) ''[::1]:8080'' \<and>
   IsBlocked example_table (installed [''['']) ''[::1]:8080''"
proof -
  have "\<not> lookup (blocklist (installed [''facebook.com''])) ''[''"
    and "lookup (blocklist (installed [''[''])) ''[''"
    by code_simp+
  with IsBlocked_first_colon [of example_table "installed [''facebook.com'']" "[]"]
    IsBlocked_first_colon [of example_table "installed [''['']" "[]"]
  show ?thesis by blast
qed

subsection \<open>Claims about the policy fetcher\<close>

lemma lookup_empty: "\<not> lookup Map.empty d"
  by (simp add: lookup_def)

lemma lookup_rebuild:
  "lookup (rebuild T m ds) d \<longleftrightarrow> d \<in> ToLower T ` set ds \<or> lookup m d"
  by (induction ds arbitrary: m) (auto simp: lookup_def)

lemma UpdateBlocklist_Ok:
  "http_Get (policyURL ps) = Ok resp \<Longrightarrow> StatusCode resp = 200 \<Longrightarrow>
   Body_Decode resp = Ok policy \<Longrightarrow>
   UpdateBlocklist T ps http_Get =
     (None, ps\<lparr>blocklist := rebuild T Map.empty (Blocked policy)\<rparr>)"
  by (simp add: UpdateBlocklist_def StatusOK_def)

text \<open>
  C4, as the program has it. When the GET answers with status 200 and a body that
  decodes to a policy document with domain list \<open>L\<close>, \<open>UpdateBlocklist\<close> returns no error
  and replaces the blocklist by the set of the elements of \<open>L\<close> in lower case, and
  nothing else: an entry is in the new blocklist if and only if it is the lower-case
  form of an element of \<open>L\<close>. Entries of the old blocklist that are not in \<open>L\<close> are gone.
  A port suffix of an element is kept as written. No entry has a capital letter: every
  entry is its own lower-case form (which rests on Go's case table, of which it is taken
  that lowering twice is lowering once).
\<close>

theorem UpdateBlocklist_replaces:
  assumes "http_Get (policyURL ps) = Ok resp" and "StatusCode resp = 200"
    and "Body_Decode resp = Ok policy"
  shows "fst (UpdateBlocklist T ps http_Get) = None \<and>
         policyURL (snd (UpdateBlocklist T ps http_Get)) = policyURL ps \<and>
         (\<forall>d. lookup (blocklist (snd (UpdateBlocklist T ps http_Get))) d \<longleftrightarrow>
                d \<in> ToLower T ` set (Blocked policy)) \<and>
         (case_table_ok T \<longrightarrow>
            (\<forall>d. lookup (blocklist (snd (UpdateBlocklist T ps http_Get))) d \<longrightarrow> ToLower T d = d))"
proof -
  have "lookup (rebuild T Map.empty ds) d \<longleftrightarrow> d \<in> ToLower T ` set ds" for ds d
    by (simp add: lookup_rebuild lookup_empty)
  then show ?thesis
    using assms by (auto simp: UpdateBlocklist_Ok ToLower_idem)
qed

theorem UpdateBlocklist_replaces_witness:
  "fst (UpdateBlocklist example_table (installed [''youtube.com''])
          (policy_net 200 (Ok \<lparr>Blocked =
             [CHR 0xC3 # CHR 0x89 # ''COLE.fr'', ''TikTok.com:8080'', ''facebook.com'']\<rparr>))) = None \<and>
   lookup (blocklist (snd (UpdateBlocklist example_table (installed [''youtube.com''])
          (policy_net 200 (Ok \<lparr>Blocked =
             [CHR 0xC3 # CHR 0x89 # ''COLE.fr'', ''TikTok.com:8080'', ''facebook.com'']\<rparr>)))))
      (CHR 0xC3 # CHR 0xA9 # ''cole.fr'') \<and>
   \<not> lookup (blocklist (snd (UpdateBlocklist example_table (installed [''youtube.com''])
          (policy_net 200 (Ok \<lparr>Blocked =
             [CHR 0xC3 # CHR 0x89 # ''COLE.fr'', ''TikTok.com:8080'', ''facebook.com'']\<rparr>)))))
      (CHR 0xC3 # CHR 0x89 # ''cole.fr'') \<and>
   \<not> lookup (blocklist (snd (UpdateBlocklist example_table (installed [''youtube.com''])
          (policy_net 200 (Ok \<lparr>Blocked =
             [CHR 0xC3 # CHR 0x89 # ''COLE.fr'', ''TikTok.com:8080'', ''facebook.com'']\<rparr>)))))
      ''youtube.com''"
proof -
  let ?L = "[CHR 0xC3 # CHR 0x89 # ''COLE.fr'', ''TikTok.com:8080'', ''facebook.com'']"
  let ?net = "policy_net 200 (Ok \<lparr>Blocked = ?L\<rparr>)"
  let ?ps = "installed [''youtube.com'']"
  have a: "?net (policyURL ?ps) = Ok \<lparr>StatusCode = 200, Body_Decode = Ok \<lparr>Blocked = ?L\<rparr>\<rparr>"
    by (simp add: policy_net_def)
  have low: "ToLower example_table ''TikTok.com:8080'' = ''tiktok.com:8080''"
    "ToLower example_table ''facebook.com'' = ''facebook.com''"
    by code_simp+
  have m: "CHR 0xC3 # CHR 0xA9 # ''cole.fr'' \<in> ToLower example_table ` set (Blocked \<lparr>Blocked = ?L\<rparr>)"
    "CHR 0xC3 # CHR 0x89 # ''cole.fr'' \<notin> ToLower example_table ` set (Blocked \<lparr>Blocked = ?L\<rparr>)"
    "''youtube.com'' \<notin> ToLower example_table ` set (Blocked \<lparr>Blocked = ?L\<rparr>)"
    by (simp_all add: low ToLower_ecole)
  have r: "fst (UpdateBlocklist example_table ?ps ?net) = None \<and>
      (\<forall>d. lookup (blocklist (snd (UpdateBlocklist example_table ?ps ?net))) d \<longleftrightarrow>
         d \<in> ToLower example_table ` set (Blocked \<lparr>Blocked = ?L\<rparr>))"
  proof -
    have b: "StatusCode \<lparr>StatusCode = 200, Body_Decode = Ok \<lparr>Blocked = ?L\<rparr>\<rparr> = 200"
      by simp
    have c: "Body_Decode \<lparr>StatusCode = 200, Body_Decode = Ok \<lparr>Blocked = ?L\<rparr>\<rparr> =
        Ok \<lparr>Blocked = ?L\<rparr>"
      by simp
    from UpdateBlocklist_replaces [where http_Get = ?net and ps = ?ps and T = example_table, OF a b c]
    show ?thesis by blast
  qed
  from r m show ?thesis by blast
qed

text \<open>
  C4 as stated fails on the port: the entry \<open>Facebook.com:8080\<close>, normalized as the
  matcher normalizes a host, is \<open>facebook.com\<close>; what \<open>UpdateBlocklist\<close> installs for it
  is \<open>facebook.com:8080\<close>, and \<open>facebook.com\<close> is not in the blocklist.
\<close>

theorem UpdateBlocklist_keeps_port_counterexample:
  "normalize_host example_table ''Facebook.com:8080'' = ''facebook.com'' \<and>
   \<not> lookup (blocklist (installed [''Facebook.com:8080''])) ''facebook.com'' \<and>
   lookup (blocklist (installed [''Facebook.com:8080''])) ''facebook.com:8080''"
  by code_simp

text \<open>
  C5. When a refresh attempt fails (the GET errors, the status is not a success status,
  or the body does not decode), \<open>UpdateBlocklist\<close> returns an error and leaves the server,
  and with it the installed blocklist, exactly as it was; the periodic loop takes the
  error as a value and goes on with the ticks that follow, from the unchanged state.
\<close>

theorem UpdateBlocklist_failure:
  assumes "refresh_fails (http_Get (policyURL ps))"
  shows "fst (UpdateBlocklist T ps http_Get) \<noteq> None \<and>
         snd (UpdateBlocklist T ps http_Get) = ps \<and>
         StartPeriodicUpdate T ps (http_Get # ticks) = StartPeriodicUpdate T ps ticks"
proof -
  have "\<exists>err. UpdateBlocklist T ps http_Get = (Some err, ps)"
    using assms
    by (auto simp: refresh_fails_def UpdateBlocklist_def StatusOK_def split: result.splits)
  then show ?thesis by auto
qed

theorem UpdateBlocklist_failure_witness:
  "refresh_fails (Err ''connection refused'') \<and>
   refresh_fails (policy_net 500 (Ok \<lparr>Blocked = []\<rparr>) ''http://localhost:8000/policy'') \<and>
   refresh_fails (policy_net 200 (Err ''unexpected EOF'') ''http://localhost:8000/policy'') \<and>
   UpdateBlocklist example_table (installed [''facebook.com'']) (\<lambda>url. Err ''connection refused'') =
     (Some (FailedToFetchPolicy ''connection refused''), installed [''facebook.com'']) \<and>
   UpdateBlocklist example_table (installed [''facebook.com'']) (policy_net 500 (Ok \<lparr>Blocked = []\<rparr>)) =
     (Some (PolicyEngineReturnedStatus 500), installed [''facebook.com'']) \<and>
   UpdateBlocklist example_table (installed [''facebook.com'']) (policy_net 200 (Err ''unexpected EOF'')) =
     (Some (FailedToDecodePolicy ''unexpected EOF''), installed [''facebook.com''])"
proof -
  let ?ps = "installed [''facebook.com'']"
  let ?T = example_table
  have url: "policyURL ?ps = ''http://localhost:8000/policy''"
    by (simp add: installed_def UpdateBlocklist_def policy_net_def NewProxyServer_def StatusOK_def)
  have a: "refresh_fails ((\<lambda>url. Err ''connection refused'') (policyURL ?ps))"
    by (simp add: refresh_fails_def)
  have b: "refresh_fails (policy_net 500 (Ok \<lparr>Blocked = []\<rparr>) (policyURL ?ps))"
    by (simp add: refresh_fails_def policy_net_def)
  have c: "refresh_fails (policy_net 200 (Err ''unexpected EOF'') (policyURL ?ps))"
    by (simp add: refresh_fails_def policy_net_def)
  have "snd (UpdateBlocklist ?T ?ps (\<lambda>url. Err ''connection refused'')) = ?ps"
       "snd (UpdateBlocklist ?T ?ps (policy_net 500 (Ok \<lparr>Blocked = []\<rparr>))) = ?ps"
       "snd (UpdateBlocklist ?T ?ps (policy_net 200 (Err ''unexpected EOF''))) = ?ps"
    using UpdateBlocklist_failure
        [where http_Get = "\<lambda>url. Err ''connection refused''" and ps = ?ps and T = ?T, OF a]
      UpdateBlocklist_failure
        [where http_Get = "policy_net 500 (Ok \<lparr>Blocked = []\<rparr>)" and ps = ?ps and T = ?T, OF b]
      UpdateBlocklist_failure
        [where http_Get = "policy_net 200 (Err ''unexpected EOF'')" and ps = ?ps and T = ?T, OF c]
    by simp_all
  moreover have
    "fst (UpdateBlocklist ?T ?ps (\<lambda>url. Err ''connection refused'')) =
       Some (FailedToFetchPolicy ''connection refused'')"
    "fst (UpdateBlocklist ?T ?ps (policy_net 500 (Ok \<lparr>Blocked = []\<rparr>))) =
       Some (PolicyEngineReturnedStatus 500)"
    "fst (UpdateBlocklist ?T ?ps (policy_net 200 (Err ''unexpected EOF''))) =
       Some (FailedToDecodePolicy ''unexpected EOF'')"
    by (simp_all add: UpdateBlocklist_def policy_net_def StatusOK_def)
  ultimately show ?thesis
    using a b c unfolding url by (simp add: prod_eq_iff)
qed

subsection \<open>The block page\<close>

lemma extra_operands_Nil [simp]: "extra_operands [] = []"
  by (simp add: extra_operands_def)

lemma no_operand_verbs_append:
  "no_operand_verbs a \<Longrightarrow> no_operand_verbs b \<Longrightarrow> no_operand_verbs (a @ b)"
  by (induction a rule: no_operand_verbs.induct) (auto split: list.splits if_splits)

lemma Sprintf_append:
  "no_operand_verbs a \<Longrightarrow> Sprintf (a @ b) args = Sprintf a [] @ Sprintf b args"
  by (induction a rule: no_operand_verbs.induct) (auto split: list.splits if_splits)

lemma no_operand_verbs_page_before: "no_operand_verbs page_before"
  unfolding page_before_def
  by (intro no_operand_verbs_append; code_simp)

lemma Sprintf_page_template:
  "Sprintf page_template [host] = Sprintf page_before [] @ host @ Sprintf page_after []"
  unfolding page_template_def
  by (simp add: Sprintf_append [OF no_operand_verbs_page_before])

lemma page_before_opens_element:
  \<open>suffix ''<div class="domain">'' (Sprintf page_before [])\<close>
  unfolding page_before_def
  apply (subst Sprintf_append)
   apply (intro no_operand_verbs_append; code_simp)
  apply (rule suffix_appendI)
  apply code_simp
  done

lemma page_after_closes_element:
  \<open>prefix ''</div>'' (Sprintf page_after [])\<close>
  by code_simp

lemma w_body_serveBlockedPage:
  "w_body (serveBlockedPage ps w host) =
     w_body w @ Sprintf page_before [] @ host @ Sprintf page_after []"
  by (simp add: serveBlockedPage_def Sprintf_page_template)

text \<open>
  C6, as the program has it. For every host string the block response has status 403,
  content type \<open>text/html; charset=utf-8\<close>, and a body that is a function of the host
  alone: the fixed text of the page before the host, the host byte for byte as it was
  received, with nothing escaped, and the fixed text after it. The host stands as the
  content of the element \<open><div class="domain">\<close>.
\<close>

theorem serveBlockedPage_verbatim:
  \<open>w_status (serveBlockedPage ps w host) = 403 \<and>
   w_header (serveBlockedPage ps w host) ''Content-Type'' = Some [''text/html; charset=utf-8''] \<and>
   w_body (serveBlockedPage ps w host) =
     w_body w @ Sprintf page_before [] @ host @ Sprintf page_after [] \<and>
   suffix ''<div class="domain">'' (Sprintf page_before []) \<and>
   prefix ''</div>'' (Sprintf page_after [])\<close>
  using page_before_opens_element page_after_closes_element
  by (simp add: w_body_serveBlockedPage) (simp add: serveBlockedPage_def StatusForbidden_def)

theorem serveBlockedPage_verbatim_witness:
  \<open>w_status (serveBlockedPage (installed [''facebook.com'']) empty_writer ''www.facebook.com'') = 403 \<and>
   w_body (serveBlockedPage (installed [''facebook.com'']) empty_writer ''www.facebook.com'') =
     Sprintf page_before [] @ ''www.facebook.com'' @ Sprintf page_after []\<close>
  using serveBlockedPage_verbatim [of "installed [''facebook.com'']" empty_writer "''www.facebook.com''"]
  by (simp add: empty_writer_def)

text \<open>
  C6 as stated fails: a host that is a script element comes out in the body as that
  script element, unescaped, as the content of the \<open>domain\<close> element.
\<close>

theorem serveBlockedPage_script_counterexample:
  \<open>sublist ''<div class="domain"><script>alert(1)</script></div>''
     (w_body (serveBlockedPage (NewProxyServer ''http://localhost:8000/policy'') empty_writer
        ''<script>alert(1)</script>''))\<close>
proof -
  obtain a where a: \<open>Sprintf page_before [] = a @ ''<div class="domain">''\<close>
    using page_before_opens_element unfolding suffix_def by blast
  obtain b where b: \<open>Sprintf page_after [] = ''</div>'' @ b\<close>
    using page_after_closes_element unfolding prefix_def by blast
  have \<open>w_body (serveBlockedPage (NewProxyServer ''http://localhost:8000/policy'') empty_writer
        ''<script>alert(1)</script>'') =
      a @ ''<div class="domain"><script>alert(1)</script></div>'' @ b\<close>
    by (simp add: w_body_serveBlockedPage a b empty_writer_def)
  then show ?thesis unfolding sublist_def by blast
qed

subsection \<open>Claims about the dispatcher\<close>

lemma IsBlocked_empty: "IsBlocked T ps [] = lookup (blocklist ps) []"
proof -
  have "\<not> parent_loop ps [[]] 1" by (subst parent_loop.simps) simp
  then show ?thesis by (simp add: IsBlocked_def)
qed

text \<open>
  C1. When the matcher reports the request's host as blocked, \<open>ServeHTTP\<close> answers with
  the block page for that host (status 403, the host in the body) and does not call
  \<open>forwardRequest\<close>; when the matcher reports it as allowed, \<open>ServeHTTP\<close> calls
  \<open>forwardRequest\<close> with the writer and the request. Whenever \<open>forwardRequest\<close> is called,
  it is called with the request itself and \<open>IsBlocked\<close> has returned false for its host.
\<close>

theorem ServeHTTP_dispatch:
  "(IsBlocked T ps (request_host r) \<longrightarrow>
      ServeHTTP T ps w r = Responded (serveBlockedPage ps w (request_host r)) \<and>
      w_status (serveBlockedPage ps w (request_host r)) = 403 \<and>
      sublist (request_host r) (w_body (serveBlockedPage ps w (request_host r))) \<and>
      (\<forall>w' r'. ServeHTTP T ps w r \<noteq> Call_forwardRequest w' r')) \<and>
   (\<not> IsBlocked T ps (request_host r) \<longrightarrow> ServeHTTP T ps w r = Call_forwardRequest w r) \<and>
   (\<forall>w' r'. ServeHTTP T ps w r = Call_forwardRequest w' r' \<longrightarrow>
      r' = r \<and> \<not> IsBlocked T ps (request_host r'))"
proof -
  have "sublist h (w_body (serveBlockedPage ps w h))" for h
    unfolding w_body_serveBlockedPage sublist_def
    by (metis append.assoc)
  moreover have "w_status (serveBlockedPage ps w h) = 403" for h
    by (simp add: serveBlockedPage_def StatusForbidden_def)
  ultimately show ?thesis
    by (auto simp: ServeHTTP_def request_host_def Let_def)
qed

theorem ServeHTTP_dispatch_witness:
  "IsBlocked example_table (installed [''facebook.com'']) (request_host (request_to ''www.facebook.com'')) \<and>
   ServeHTTP example_table (installed [''facebook.com'']) empty_writer (request_to ''www.facebook.com'') =
     Responded (serveBlockedPage (installed [''facebook.com'']) empty_writer ''www.facebook.com'') \<and>
   \<not> IsBlocked example_table (installed [''facebook.com'']) (request_host (request_to ''example.com'')) \<and>
   ServeHTTP example_table (installed [''facebook.com'']) empty_writer (request_to ''example.com'') =
     Call_forwardRequest empty_writer (request_to ''example.com'')"
proof -
  let ?ps = "installed [''facebook.com'']"
  have h1: "request_host (request_to ''www.facebook.com'') = ''www.facebook.com''"
    and h2: "request_host (request_to ''example.com'') = ''example.com''"
    by (simp_all add: request_host_def request_to_def)
  have b: "IsBlocked example_table ?ps (request_host (request_to ''www.facebook.com''))"
    unfolding h1 by code_simp
  have a: "\<not> IsBlocked example_table ?ps (request_host (request_to ''example.com''))"
    unfolding h2 by code_simp
  from ServeHTTP_dispatch [of example_table ?ps "request_to ''www.facebook.com''" empty_writer] b
  have "ServeHTTP example_table ?ps empty_writer (request_to ''www.facebook.com'') =
      Responded (serveBlockedPage ?ps empty_writer ''www.facebook.com'')"
    unfolding h1 by blast
  moreover from ServeHTTP_dispatch [of example_table ?ps "request_to ''example.com''" empty_writer] a
  have "ServeHTTP example_table ?ps empty_writer (request_to ''example.com'') =
      Call_forwardRequest empty_writer (request_to ''example.com'')"
    by blast
  ultimately show ?thesis using a b by blast
qed

text \<open>
  C7, as the program has it. A request with an empty host (\<open>r.Host\<close> and \<open>r.URL.Host\<close>
  both empty) is handled like any other: \<open>ServeHTTP\<close> asks the matcher about the empty
  string, which is blocked exactly when the empty string is an entry of the blocklist;
  then the block page is served, and otherwise the request goes to \<open>forwardRequest\<close>.
  \<open>ServeHTTP\<close> has no response of its own for a malformed request.
\<close>

theorem ServeHTTP_empty_host:
  "Host r = [] \<Longrightarrow> URL_Host r = [] \<Longrightarrow>
   ServeHTTP T ps w r =
     (if lookup (blocklist ps) [] then Responded (serveBlockedPage ps w [])
      else Call_forwardRequest w r)"
  by (simp add: ServeHTTP_def IsBlocked_empty)

theorem ServeHTTP_empty_host_witness:
  "Host (request_to []) = [] \<and> URL_Host (request_to []) = [] \<and>
   lookup (blocklist (installed [[]])) [] \<and>
   ServeHTTP example_table (installed [[]]) empty_writer (request_to []) =
     Responded (serveBlockedPage (installed [[]]) empty_writer [])"
proof -
  have a: "Host (request_to []) = []" and b: "URL_Host (request_to []) = []"
    by (simp_all add: request_to_def)
  have c: "lookup (blocklist (installed [[]])) []"
    by (simp add: blocklist_installed lookup_def)
  from ServeHTTP_empty_host [OF a b, of example_table "installed [[]]" empty_writer] a b c
  show ?thesis by simp
qed

text \<open>
  C7 as stated fails: with an empty blocklist a request with an empty host is handed to
  \<open>forwardRequest\<close>.
\<close>

theorem ServeHTTP_empty_host_counterexample:
  "request_host (request_to []) = [] \<and>
   ServeHTTP example_table (NewProxyServer ''http://localhost:8000/policy'') empty_writer (request_to []) =
     Call_forwardRequest empty_writer (request_to [])"
  by (simp add: request_host_def request_to_def ServeHTTP_def IsBlocked_empty NewProxyServer_def
      lookup_def)


end
